theory Spec2Isabelle
  imports Main "HOL-Library.Word"
begin

unbundle bit_operations_syntax

section \<open>System constants used by AsyncIO.c\<close>

text \<open>
  The errno values come from the system headers of the build target, not from the
  repository.  The values below are those of the kqueue targets (Darwin and the BSDs),
  where \<open>EWOULDBLOCK\<close> and \<open>EAGAIN\<close> are the same number.
\<close>

definition ENOENT :: int where "ENOENT = 2"
definition EIO :: int where "EIO = 5"
definition ENOTTY :: int where "ENOTTY = 25"
definition EAGAIN :: int where "EAGAIN = 35"
definition EWOULDBLOCK :: int where "EWOULDBLOCK = 35"

section \<open>The redirect pump (\<open>redirect_Pump\<close>)\<close>

type_synonym byte = "8 word"

definition REDIR_STATE_WAITING_FOR_DATA :: int where "REDIR_STATE_WAITING_FOR_DATA = 1"
definition REDIR_STATE_SENDING :: int where "REDIR_STATE_SENDING = 2"

definition kAIO_REDIRECT_INPUT_CLOSED_EVENT :: int where "kAIO_REDIRECT_INPUT_CLOSED_EVENT = 1"
definition kAIO_REDIRECT_INPUT_ERROR_EVENT :: int where "kAIO_REDIRECT_INPUT_ERROR_EVENT = 2"
definition kAIO_REDIRECT_OUTPUT_ERROR_EVENT :: int where "kAIO_REDIRECT_OUTPUT_ERROR_EVENT = 3"
definition kAIO_REDIRECT_DATA_READY :: int where "kAIO_REDIRECT_DATA_READY = 4"
definition kAIO_REDIRECT_DATA_WRITTEN :: int where "kAIO_REDIRECT_DATA_WRITTEN = 5"

text \<open>
  \<open>struct OpaqueAsyncIORedirect\<close>: the pump state, the two descriptors, the 512-byte
  buffer and the count of buffered bytes.  The two connection handles and the owner's
  callback pointer do not influence the control flow of the pump; what the pump does with
  them is recorded in the trace below.
\<close>

record OpaqueAsyncIORedirect =
  state :: int
  fd_in :: int
  fd_out :: int
  buffer :: "byte list"
  num_in_buffer :: nat

text \<open>
  The result of one \<open>read\<close> or \<open>write\<close> system call, as the kernel decides it:
  \<open>Fail e\<close> is a return of \<open>-1\<close> with \<open>errno = e\<close>; \<open>Ok n\<close> is a transfer of
  up to \<open>n\<close> bytes (never more than the call asked for, and for a read never more than
  the input stream still holds).
\<close>

datatype sysres = Fail int | Ok nat

text \<open>
  What the pump does to the outside world, in order: the system calls it makes, the
  bytes the output descriptor accepted, the notifications to the owner's callback and the
  interest it arms on its two handles.
\<close>

datatype pump_action =
    SysRead int nat
  | SysWrite int "byte list"
  | Delivered "byte list"
  | OwnerEvent int
  | NotifyOnReadability_in
  | NotifyOnWritability_out

text \<open>\<open>memmove (buffer, &buffer[num_out], remaining)\<close> on the buffer as a list.\<close>

definition memmove_front :: "byte list \<Rightarrow> nat \<Rightarrow> nat \<Rightarrow> byte list" where
  "memmove_front buf num_out remaining =
     take remaining (drop num_out buf) @ drop remaining buf"

text \<open>A successful \<open>read\<close> of the bytes \<open>d\<close> into the start of the buffer.\<close>

definition store_front :: "byte list \<Rightarrow> byte list \<Rightarrow> byte list" where
  "store_front buf d = d @ drop (length d) buf"

text \<open>
  \<open>redirect_Pump\<close>.  Every iteration of \<open>while (!done)\<close> makes exactly one system
  call, so the loop is a recursion over the list of results the kernel gives to the
  successive calls; \<open>inp\<close> is what the input stream still holds.  The value \<open>None\<close>
  says that the loop has not returned: either the given results are used up while
  \<open>done\<close> is still false, or the state is neither of the two known ones (the
  \<open>default\<close> branch never sets \<open>done\<close>).  The owner's callback is taken to leave the
  pump alone.
\<close>

fun redirect_Pump ::
  "sysres list \<Rightarrow> byte list \<Rightarrow> OpaqueAsyncIORedirect \<Rightarrow> pump_action list
     \<Rightarrow> (OpaqueAsyncIORedirect \<times> byte list \<times> pump_action list) option" where
  "redirect_Pump [] inp redir tr = None"
| "redirect_Pump (r # rs) inp redir tr =
    (if state redir = REDIR_STATE_WAITING_FOR_DATA then
       (let tr1 = tr @ [SysRead (fd_in redir) (length (buffer redir))] in
        case r of
          Fail e \<Rightarrow>
            if e = EWOULDBLOCK then Some (redir, inp, tr1 @ [NotifyOnReadability_in])
            else redirect_Pump rs inp redir
                   (tr1 @ [OwnerEvent kAIO_REDIRECT_INPUT_ERROR_EVENT])
        | Ok n \<Rightarrow>
            (let d = take (min n (length (buffer redir))) inp in
             if length d = 0 then Some (redir, inp, tr1)
             else redirect_Pump rs (drop (length d) inp)
                    (redir\<lparr>buffer := store_front (buffer redir) d,
                           num_in_buffer := length d,
                           state := REDIR_STATE_SENDING\<rparr>) tr1))
     else if state redir = REDIR_STATE_SENDING then
       (let tr1 = tr @ [SysWrite (fd_out redir) (take (num_in_buffer redir) (buffer redir))] in
        case r of
          Fail e \<Rightarrow>
            if e = EWOULDBLOCK \<or> e = EAGAIN
            then Some (redir, inp, tr1 @ [NotifyOnWritability_out])
            else redirect_Pump rs inp redir
                   (tr1 @ [OwnerEvent kAIO_REDIRECT_OUTPUT_ERROR_EVENT])
        | Ok k \<Rightarrow>
            (let num_out = min k (num_in_buffer redir);
                 tr2 = tr1 @ [Delivered (take num_out (buffer redir))] in
             if num_out < num_in_buffer redir then
               (let remaining = num_in_buffer redir - num_out in
                redirect_Pump rs inp
                  (redir\<lparr>buffer := memmove_front (buffer redir) num_out remaining\<rparr>) tr2)
             else
               redirect_Pump rs inp (redir\<lparr>state := REDIR_STATE_WAITING_FOR_DATA\<rparr>)
                 (tr2 @ [OwnerEvent kAIO_REDIRECT_DATA_WRITTEN])))
     else None)"

text \<open>The bytes the output descriptor has accepted, in order.\<close>

fun delivered :: "pump_action list \<Rightarrow> byte list" where
  "delivered [] = []"
| "delivered (Delivered bs # tr) = bs @ delivered tr"
| "delivered (a # tr) = delivered tr"

text \<open>The number of \<open>read\<close> calls in a trace.\<close>

fun reads_in :: "pump_action list \<Rightarrow> nat" where
  "reads_in [] = 0"
| "reads_in (SysRead f n # tr) = Suc (reads_in tr)"
| "reads_in (a # tr) = reads_in tr"

text \<open>A freshly allocated pump (\<open>calloc\<close> zeroes the buffer), as \<open>AsyncIO_Redirect\<close> leaves it.\<close>

definition new_redirect :: "int \<Rightarrow> int \<Rightarrow> OpaqueAsyncIORedirect" where
  "new_redirect i out =
     \<lparr>state = REDIR_STATE_WAITING_FOR_DATA, fd_in = i, fd_out = out,
      buffer = replicate 512 0, num_in_buffer = 0\<rparr>"

section \<open>Handles and the process-wide state\<close>

text \<open>
  An \<open>AsyncIO\<close> is a pointer to a \<open>struct OpaqueAsyncIO\<close>: a non-null pointer is an
  address, and \<open>NULL\<close> is \<open>None\<close> at the type \<open>AsyncIO option\<close>.  The function
  pointer \<open>callback\<close> and the \<open>userdata\<close> pointer are kept as plain numbers.  The
  last two fields exist only in the \<open>select\<close> build.
\<close>

type_synonym AsyncIO = nat

definition kAIO_TYPE_LISTENER :: int where "kAIO_TYPE_LISTENER = 1"
definition kAIO_TYPE_CONNECTION :: int where "kAIO_TYPE_CONNECTION = 2"
definition kAIO_TYPE_TIMER :: int where "kAIO_TYPE_TIMER = 3"
definition kAIO_TYPE_PROC :: int where "kAIO_TYPE_PROC = 4"
definition kAIO_TYPE_SIGNAL :: int where "kAIO_TYPE_SIGNAL = 5"

definition kAIO_NEW_CONNECTION :: int where "kAIO_NEW_CONNECTION = 1"
definition kAIO_CONNECTION_CLOSED :: int where "kAIO_CONNECTION_CLOSED = 2"
definition kAIO_READY_FOR_WRITE :: int where "kAIO_READY_FOR_WRITE = 3"
definition kAIO_DATA_AVAILABLE :: int where "kAIO_DATA_AVAILABLE = 4"
definition kAIO_TIMER_FIRED :: int where "kAIO_TIMER_FIRED = 5"
definition kAIO_PROCESS_EXITED :: int where "kAIO_PROCESS_EXITED = 6"
definition kAIO_SIGNAL_DELIVERED :: int where "kAIO_SIGNAL_DELIVERED = 7"

record OpaqueAsyncIO =
  fd :: int
  type :: int
  callback :: nat
  userdata :: nat
  notifyOnRead :: bool
  notifyOnWrite :: bool
  next_fire_time :: "32 word"
  next_timer :: "AsyncIO option"

text \<open>
  Two things the C code can do that have no defined result: going through a pointer
  that is \<open>NULL\<close> or that points to no live \<open>struct OpaqueAsyncIO\<close> (never allocated,
  or already freed), and reading a local variable that was never assigned.  The model
  stops with a fault there.
\<close>

datatype fault = BadPointer | UninitializedRead

text \<open>
  A function of the model that can loop or fault returns \<open>(fault + 'a) option\<close>:
  \<open>None\<close> when it never returns, \<open>Some (Inl f)\<close> at a fault, \<open>Some (Inr x)\<close> when it
  returns \<open>x\<close>.  \<open>and_then\<close> sequences two such steps.
\<close>

definition and_then ::
  "(fault + 'a) option \<Rightarrow> ('a \<Rightarrow> (fault + 'b) option) \<Rightarrow> (fault + 'b) option" where
  "and_then r f = (case r of None \<Rightarrow> None | Some (Inl e) \<Rightarrow> Some (Inl e) | Some (Inr x) \<Rightarrow> f x)"

text \<open>The fault a call stopped with, if it did.\<close>

definition fault_of :: "(fault + 'a) option \<Rightarrow> fault option" where
  "fault_of r = (case r of Some (Inl f) \<Rightarrow> Some f | _ \<Rightarrow> None)"

text \<open>
  One kernel event as the code reads and writes it (\<open>struct kevent\<close>): the registered
  identifier, the filter, the flags and the user pointer, which the code always sets to
  the handle.
\<close>

definition EVFILT_READ :: int where "EVFILT_READ = - 1"
definition EVFILT_WRITE :: int where "EVFILT_WRITE = - 2"
definition EVFILT_PROC :: int where "EVFILT_PROC = - 5"
definition EVFILT_SIGNAL :: int where "EVFILT_SIGNAL = - 6"
definition EVFILT_TIMER :: int where "EVFILT_TIMER = - 7"

definition EV_ADD :: "16 word" where "EV_ADD = 0x0001"
definition EV_DELETE :: "16 word" where "EV_DELETE = 0x0002"
definition EV_ENABLE :: "16 word" where "EV_ENABLE = 0x0004"
definition EV_ONESHOT :: "16 word" where "EV_ONESHOT = 0x0010"
definition EV_EOF :: "16 word" where "EV_EOF = 0x8000"

definition EBADF :: int where "EBADF = 9"
definition EINTR :: int where "EINTR = 4"
definition O_NONBLOCK :: int where "O_NONBLOCK = 4"

record kevent_s =
  ident :: int
  kfilter :: int
  flags :: "16 word"
  udata :: "AsyncIO option"

text \<open>A pointer cast to an integer: \<open>NULL\<close> is 0, any other pointer is positive.\<close>

definition ptr_ident :: "AsyncIO option \<Rightarrow> int" where
  "ptr_ident p = (case p of None \<Rightarrow> 0 | Some a \<Rightarrow> 1 + int a)"

text \<open>
  The process-wide state.  The first group are the globals of AsyncIO.c (\<open>anioKQ\<close> in
  the kqueue build; the two descriptor sets and the two timer pointers in the
  \<open>select\<close> build).  \<open>mem\<close> holds the live handle structures: \<open>calloc\<close> adds one and
  \<open>ForgetMem\<close> removes it.  The last group is state the operating system keeps for the
  process: the events registered with the kernel queue, the user pointer lwIP stores per
  socket, and the status flags of the open descriptors (\<open>close\<close> removes the entry).
\<close>

record globals =
  mem :: "AsyncIO \<rightharpoonup> OpaqueAsyncIO"
  anioInProgress :: "AsyncIO option"
  anioKQ :: int
  anioReadSet :: "int set"
  anioWriteSet :: "int set"
  enabled_timers :: "AsyncIO option"
  aio_next_enabled_timer :: "AsyncIO option"
  knotes :: "(int \<times> int) \<rightharpoonup> kevent_s"
  sock_userdata :: "int \<rightharpoonup> AsyncIO"
  fd_status :: "int \<rightharpoonup> int"

record timeval =
  tv_sec :: int
  tv_usec :: int

section \<open>The operating system, as far as AsyncIO.c calls it\<close>

text \<open>
  \<open>kevent\<close> with one change and no event list, after kqueue(2): \<open>EV_DELETE\<close> removes
  the registration under (identifier, filter) and fails with \<open>ENOENT\<close> when there is
  none; \<open>EV_ADD\<close> adds the registration or replaces the one already there, and fails
  with \<open>EBADF\<close> when the filter is \<open>EVFILT_READ\<close> or \<open>EVFILT_WRITE\<close> and the
  identifier is not an open descriptor.  A queue that is not open gives \<open>EBADF\<close> as
  well.  The result is (return value, errno).
\<close>

definition kevent_change :: "kevent_s \<Rightarrow> globals \<Rightarrow> (int \<times> int) \<times> globals" where
  "kevent_change kv g =
     (if anioKQ g < 0 then ((- 1, EBADF), g)
      else if flags kv AND EV_DELETE \<noteq> 0 then
        (if knotes g (ident kv, kfilter kv) = None then ((- 1, ENOENT), g)
         else ((0, 0), g\<lparr>knotes := (knotes g)((ident kv, kfilter kv) := None)\<rparr>))
      else if flags kv AND EV_ADD \<noteq> 0 then
        (if (kfilter kv = EVFILT_READ \<or> kfilter kv = EVFILT_WRITE)
            \<and> fd_status g (ident kv) = None
           then ((- 1, EBADF), g)
         else ((0, 0), g\<lparr>knotes := (knotes g)((ident kv, kfilter kv) \<mapsto> kv)\<rparr>))
      else ((0, 0), g))"

text \<open>
  \<open>kevent\<close> with no change and room for \<open>n\<close> events.  \<open>fired\<close> lists what has
  become ready, as (identifier, filter, extra flags such as \<open>EV_EOF\<close>); the kernel
  reports an entry only while it is registered, hands back the registered user pointer,
  and drops a registration made with \<open>EV_ONESHOT\<close> as it reports it.
\<close>

fun kevent_collect ::
  "((int \<times> int) \<rightharpoonup> kevent_s) \<Rightarrow> (int \<times> int \<times> 16 word) list \<Rightarrow> nat
     \<Rightarrow> kevent_s list \<times> ((int \<times> int) \<rightharpoonup> kevent_s)" where
  "kevent_collect kn [] n = ([], kn)"
| "kevent_collect kn ((i, f, x) # fs) n =
     (if n = 0 then ([], kn)
      else case kn (i, f) of
             None \<Rightarrow> kevent_collect kn fs n
           | Some k \<Rightarrow>
               (let kn1 = (if flags k AND EV_ONESHOT \<noteq> 0 then kn((i, f) := None) else kn);
                    (evs, kn2) = kevent_collect kn1 fs (n - 1)
                in (k\<lparr>flags := flags k OR x\<rparr> # evs, kn2)))"

text \<open>\<open>close (fd)\<close>: the descriptor is gone, and with it the events registered on it.\<close>

definition close_fd :: "int \<Rightarrow> globals \<Rightarrow> globals" where
  "close_fd d g =
     g\<lparr>fd_status := (fd_status g)(d := None),
       knotes := (\<lambda>k. if fst k = d \<and> (snd k = EVFILT_READ \<or> snd k = EVFILT_WRITE)
                       then None else knotes g k)\<rparr>"

text \<open>
  \<open>fcntl (fd, F_GETFL, 0)\<close> returns the status flags of an open descriptor and \<open>-1\<close>
  otherwise.  Whether \<open>fcntl (fd, F_SETFL, flags)\<close> succeeds is up to the device behind
  the descriptor, so its result (return value, errno) is an input; when it succeeds the
  flags are stored.
\<close>

definition fcntl_GETFL :: "globals \<Rightarrow> int \<Rightarrow> int" where
  "fcntl_GETFL g d = (case fd_status g d of None \<Rightarrow> - 1 | Some fl \<Rightarrow> fl)"

definition fcntl_SETFL :: "int \<times> int \<Rightarrow> int \<Rightarrow> int \<Rightarrow> globals \<Rightarrow> globals" where
  "fcntl_SETFL res d fl g = (if fst res = 0 then g\<lparr>fd_status := (fd_status g)(d \<mapsto> fl)\<rparr> else g)"

text \<open>
  Modelled from the call sites: \<open>lwip_socket_set_userdata\<close> and
  \<open>lwip_socket_get_userdata\<close> are not part of the repository.  The first stores a
  pointer with a socket and returns 0, or fails on a negative socket number; the second
  reads it back.
\<close>

definition lwip_socket_set_userdata :: "int \<Rightarrow> AsyncIO \<Rightarrow> globals \<Rightarrow> int \<times> globals" where
  "lwip_socket_set_userdata d p g =
     (if d < 0 then (- 1, g) else (0, g\<lparr>sock_userdata := (sock_userdata g)(d \<mapsto> p)\<rparr>))"

section \<open>Timers\<close>

text \<open>
  The \<open>while (tio != NULL)\<close> loop of \<open>AsyncIO_GetNextTimerFireTime\<close>, over the
  links as they are in memory.  \<open>None\<close> is a loop that never ends.
\<close>

partial_function (option) next_timer_scan ::
  "(AsyncIO \<rightharpoonup> OpaqueAsyncIO) \<Rightarrow> AsyncIO option \<Rightarrow> AsyncIO option \<Rightarrow> 32 word
     \<Rightarrow> (fault + AsyncIO option \<times> 32 word) option" where
  "next_timer_scan m tio nxt nft =
     (case tio of
        None \<Rightarrow> Some (Inr (nxt, nft))
      | Some p \<Rightarrow>
          (case m p of
             None \<Rightarrow> Some (Inl BadPointer)
           | Some t \<Rightarrow>
               if next_fire_time t < nft
               then next_timer_scan m (next_timer t) (Some p) (next_fire_time t)
               else next_timer_scan m (next_timer t) nxt nft))"

declare next_timer_scan.simps [code]

text \<open>The \<open>struct timeval\<close> the function computes from the winning fire time.\<close>

definition remaining_timeval :: "32 word \<Rightarrow> 32 word \<Rightarrow> timeval" where
  "remaining_timeval now nft =
     (if now > nft then \<lparr>tv_sec = 0, tv_usec = 0\<rparr>
      else (let remaining = nft - now in
            \<lparr>tv_sec = uint (remaining div 1000),
             tv_usec = uint ((remaining mod 1000) * 1000)\<rparr>))"

text \<open>
  \<open>AsyncIO_GetNextTimerFireTime\<close> (\<open>select\<close> build only) at the clock reading
  \<open>now\<close>.  \<open>Some (tv, t)\<close> are the values written to \<open>*tv\<close> and
  \<open>*out_next_timer\<close>; the inner \<open>None\<close> is the case in which the function writes
  neither.
\<close>

definition AsyncIO_GetNextTimerFireTime ::
  "32 word \<Rightarrow> globals \<Rightarrow> (fault + (timeval \<times> AsyncIO) option) option" where
  "AsyncIO_GetNextTimerFireTime now g =
     and_then (next_timer_scan (mem g) (enabled_timers g) None 0xFFFFFFFF)
       (\<lambda>(nxt, nft).
          Some (Inr (case nxt of
                       None \<Rightarrow> None
                     | Some t \<Rightarrow> Some (remaining_timeval now nft, t))))"

text \<open>
  \<open>AsyncIO_EnableTimer\<close> in the \<open>select\<close> build, at the clock reading \<open>now\<close>; the
  result is the returned \<open>int\<close> and the new state.
\<close>

definition AsyncIO_EnableTimer_select ::
  "32 word \<Rightarrow> AsyncIO option \<Rightarrow> 32 word \<Rightarrow> globals \<Rightarrow> fault + int \<times> globals" where
  "AsyncIO_EnableTimer_select now timer milliseconds g =
     (case timer of
        None \<Rightarrow> Inr (- 1, g)
      | Some p \<Rightarrow>
          (case mem g p of
             None \<Rightarrow> Inl BadPointer
           | Some t \<Rightarrow>
               Inr (0, g\<lparr>mem := (mem g)(p \<mapsto> t\<lparr>next_fire_time := now + milliseconds,
                                                  next_timer := enabled_timers g\<rparr>),
                         enabled_timers := Some p\<rparr>)))"

text \<open>\<open>AsyncIO_EnableTimer\<close> in the kqueue build: a one-shot kernel timer.\<close>

definition AsyncIO_EnableTimer_kqueue ::
  "AsyncIO option \<Rightarrow> 32 word \<Rightarrow> globals \<Rightarrow> int \<times> globals" where
  "AsyncIO_EnableTimer_kqueue timer milliseconds g =
     (case timer of
        None \<Rightarrow> (- 1, g)
      | Some p \<Rightarrow>
          (let (res, g1) = kevent_change
                 \<lparr>ident = ptr_ident timer, kfilter = EVFILT_TIMER,
                  flags = EV_ADD OR EV_ENABLE OR EV_ONESHOT, udata = timer\<rparr> g
           in if fst res = 0 then (0, g1) else (- 1, g1)))"

text \<open>
  The \<open>while (true)\<close> loop of \<open>AsyncIO_DisableTimer\<close>, entered with \<open>tio\<close> at the
  head of the list.  \<open>Inr (Some m')\<close> is the \<open>break\<close> after unlinking, \<open>Inr None\<close>
  the failed \<open>require (tio != NULL, exit)\<close>, and \<open>None\<close> a loop that never ends.
\<close>

partial_function (option) disable_scan ::
  "(AsyncIO \<rightharpoonup> OpaqueAsyncIO) \<Rightarrow> AsyncIO \<Rightarrow> AsyncIO option
     \<Rightarrow> (fault + (AsyncIO \<rightharpoonup> OpaqueAsyncIO) option) option" where
  "disable_scan m tio timer =
     (case m tio of
        None \<Rightarrow> Some (Inl BadPointer)
      | Some t \<Rightarrow>
          if next_timer t = timer then
            (case timer of
               None \<Rightarrow> Some (Inl BadPointer)
             | Some tp \<Rightarrow>
                 (case m tp of
                    None \<Rightarrow> Some (Inl BadPointer)
                  | Some tt \<Rightarrow> Some (Inr (Some (m(tio \<mapsto> t\<lparr>next_timer := next_timer tt\<rparr>))))))
          else
            (case next_timer t of
               None \<Rightarrow> Some (Inr None)
             | Some n \<Rightarrow> disable_scan m n timer))"

declare disable_scan.simps [code]

text \<open>The housekeeping store \<open>timer->next_timer = NULL\<close>, then \<open>result = 0\<close>.\<close>

definition clear_next_timer :: "AsyncIO option \<Rightarrow> globals \<Rightarrow> fault + int \<times> globals" where
  "clear_next_timer timer g =
     (case timer of
        None \<Rightarrow> Inl BadPointer
      | Some tp \<Rightarrow>
          (case mem g tp of
             None \<Rightarrow> Inl BadPointer
           | Some tt \<Rightarrow> Inr (0, g\<lparr>mem := (mem g)(tp \<mapsto> tt\<lparr>next_timer := None\<rparr>)\<rparr>)))"

text \<open>\<open>AsyncIO_DisableTimer\<close> in the \<open>select\<close> build.\<close>

definition AsyncIO_DisableTimer_select ::
  "AsyncIO option \<Rightarrow> globals \<Rightarrow> (fault + int \<times> globals) option" where
  "AsyncIO_DisableTimer_select timer g =
     (let g1 = (if timer = aio_next_enabled_timer g
                then g\<lparr>aio_next_enabled_timer := None\<rparr> else g) in
      case enabled_timers g1 of
        None \<Rightarrow> Some (Inr (- 1, g1))
      | Some tio \<Rightarrow>
          if Some tio = timer then
            (case mem g1 tio of
               None \<Rightarrow> Some (Inl BadPointer)
             | Some t \<Rightarrow> Some (clear_next_timer timer (g1\<lparr>enabled_timers := next_timer t\<rparr>)))
          else
            and_then (disable_scan (mem g1) tio timer)
              (\<lambda>r. case r of
                      None \<Rightarrow> Some (Inr (- 1, g1))
                    | Some m' \<Rightarrow> Some (clear_next_timer timer (g1\<lparr>mem := m'\<rparr>))))"

text \<open>
  \<open>AsyncIO_DisableTimer\<close> in the kqueue build: the kernel is asked to delete the
  timer, and \<open>ENOENT\<close> from it is accepted.
\<close>

definition AsyncIO_DisableTimer_kqueue :: "AsyncIO option \<Rightarrow> globals \<Rightarrow> int \<times> globals" where
  "AsyncIO_DisableTimer_kqueue timer g =
     (let (res, g1) = kevent_change
            \<lparr>ident = ptr_ident timer, kfilter = EVFILT_TIMER, flags = EV_DELETE,
             udata = timer\<rparr> g
      in if fst res = 0 \<or> snd res = ENOENT then (0, g1) else (- 1, g1))"

text \<open>
  The enabled-timer list as a list: \<open>timer_path m p xs\<close> says that from \<open>p\<close> the
  \<open>next_timer\<close> links lead through exactly the handles \<open>xs\<close>, all live, to \<open>NULL\<close>.
\<close>

fun timer_path :: "(AsyncIO \<rightharpoonup> OpaqueAsyncIO) \<Rightarrow> AsyncIO option \<Rightarrow> AsyncIO list \<Rightarrow> bool" where
  "timer_path m p [] = (p = None)"
| "timer_path m p (x # xs) =
     (p = Some x \<and> (case m x of None \<Rightarrow> False | Some t \<Rightarrow> timer_path m (next_timer t) xs))"

definition deadline :: "(AsyncIO \<rightharpoonup> OpaqueAsyncIO) \<Rightarrow> AsyncIO \<Rightarrow> 32 word" where
  "deadline m x = (case m x of None \<Rightarrow> 0 | Some t \<Rightarrow> next_fire_time t)"

text \<open>What the scan of \<open>AsyncIO_GetNextTimerFireTime\<close> computes along such a list.\<close>

fun earliest ::
  "(AsyncIO \<rightharpoonup> OpaqueAsyncIO) \<Rightarrow> AsyncIO list \<Rightarrow> AsyncIO option \<times> 32 word
     \<Rightarrow> AsyncIO option \<times> 32 word" where
  "earliest m [] acc = acc"
| "earliest m (x # xs) (nxt, nft) =
     (if deadline m x < nft then earliest m xs (Some x, deadline m x)
      else earliest m xs (nxt, nft))"

text \<open>A caller that arms several timers one after the other at the same clock reading.\<close>

fun enable_timers :: "32 word \<Rightarrow> (AsyncIO \<times> 32 word) list \<Rightarrow> globals \<Rightarrow> fault + globals" where
  "enable_timers now [] g = Inr g"
| "enable_timers now ((t, ms) # ts) g =
     (case AsyncIO_EnableTimer_select now (Some t) ms g of
        Inl f \<Rightarrow> Inl f
      | Inr (r, g1) \<Rightarrow> enable_timers now ts g1)"

text \<open>\<open>AsyncIO_NewTimer\<close>; \<open>calloc_res\<close> is what \<open>calloc\<close> returns.\<close>

definition zeroed :: OpaqueAsyncIO where
  "zeroed = \<lparr>fd = 0, type = 0, callback = 0, userdata = 0, notifyOnRead = False,
             notifyOnWrite = False, next_fire_time = 0, next_timer = None\<rparr>"

definition AsyncIO_NewTimer ::
  "AsyncIO option \<Rightarrow> nat \<Rightarrow> nat \<Rightarrow> globals \<Rightarrow> AsyncIO option \<times> globals" where
  "AsyncIO_NewTimer calloc_res eventCallback userData g =
     (case calloc_res of
        None \<Rightarrow> (None, g)
      | Some p \<Rightarrow>
          (Some p, g\<lparr>mem := (mem g)(p \<mapsto> zeroed\<lparr>fd := - 1, type := kAIO_TYPE_TIMER,
                                               callback := eventCallback,
                                               userdata := userData\<rparr>)\<rparr>))"

text \<open>The state after \<open>AsyncIO_Initialize\<close> with an open queue and no descriptor open.\<close>

definition initial_globals :: globals where
  "initial_globals =
     \<lparr>mem = Map.empty, anioInProgress = None, anioKQ = 3, anioReadSet = {},
      anioWriteSet = {}, enabled_timers = None, aio_next_enabled_timer = None,
      knotes = Map.empty, sock_userdata = Map.empty, fd_status = Map.empty\<rparr>"

section \<open>Constructors, arming and release\<close>

text \<open>
  \<open>AsyncIO_NewConnectionListener\<close>.  \<open>calloc_res\<close> is what \<open>calloc\<close> returns and
  \<open>setfl_res\<close> what \<open>fcntl (fd, F_SETFL, flags)\<close> returns and leaves in \<open>errno\<close>.
  On every failing path the structure is freed again, so the live handles are as before.
\<close>

definition AsyncIO_NewConnectionListener_kqueue ::
  "AsyncIO option \<Rightarrow> int \<times> int \<Rightarrow> int \<Rightarrow> nat \<Rightarrow> nat \<Rightarrow> globals \<Rightarrow> AsyncIO option \<times> globals" where
  "AsyncIO_NewConnectionListener_kqueue calloc_res setfl_res d eventCallback userData g =
     (case calloc_res of
        None \<Rightarrow> (None, g)
      | Some p \<Rightarrow>
          (let fl = fcntl_GETFL g d in
           if fl = - 1 then (None, g)
           else
             (let g1 = fcntl_SETFL setfl_res d (fl OR O_NONBLOCK) g in
              if fst setfl_res \<noteq> 0 then (None, g1)
              else
                (let (res, g2) = kevent_change
                       \<lparr>ident = d, kfilter = EVFILT_READ, flags = EV_ADD, udata = Some p\<rparr> g1
                 in if fst res \<noteq> 0 then (None, g2)
                    else (Some p,
                          g2\<lparr>mem := (mem g2)(p \<mapsto> zeroed\<lparr>fd := d, type := kAIO_TYPE_LISTENER,
                                                           callback := eventCallback,
                                                           userdata := userData\<rparr>)\<rparr>)))))"

definition AsyncIO_NewConnectionListener_select ::
  "AsyncIO option \<Rightarrow> int \<times> int \<Rightarrow> int \<Rightarrow> nat \<Rightarrow> nat \<Rightarrow> globals \<Rightarrow> AsyncIO option \<times> globals" where
  "AsyncIO_NewConnectionListener_select calloc_res setfl_res d eventCallback userData g =
     (case calloc_res of
        None \<Rightarrow> (None, g)
      | Some p \<Rightarrow>
          (let fl = fcntl_GETFL g d in
           if fl = - 1 then (None, g)
           else
             (let g1 = fcntl_SETFL setfl_res d (fl OR O_NONBLOCK) g in
              if fst setfl_res \<noteq> 0 then (None, g1)
              else
                (let g2 = snd (lwip_socket_set_userdata d p g1);
                     g3 = g2\<lparr>anioReadSet := insert d (anioReadSet g2)\<rparr>
                 in (Some p,
                     g3\<lparr>mem := (mem g3)(p \<mapsto> zeroed\<lparr>fd := d, type := kAIO_TYPE_LISTENER,
                                                      callback := eventCallback,
                                                      userdata := userData\<rparr>)\<rparr>)))))"

text \<open>
  \<open>AsyncIO_NewConnection\<close>: a failing \<open>F_SETFL\<close> is forgiven when \<open>errno\<close> is
  \<open>ENOTTY\<close>.
\<close>

definition AsyncIO_NewConnection_kqueue ::
  "AsyncIO option \<Rightarrow> int \<times> int \<Rightarrow> int \<Rightarrow> nat \<Rightarrow> nat \<Rightarrow> globals \<Rightarrow> AsyncIO option \<times> globals" where
  "AsyncIO_NewConnection_kqueue calloc_res setfl_res d eventCallback userData g =
     (case calloc_res of
        None \<Rightarrow> (None, g)
      | Some p \<Rightarrow>
          (let fl = fcntl_GETFL g d in
           if fl = - 1 then (None, g)
           else
             (let g1 = fcntl_SETFL setfl_res d (fl OR O_NONBLOCK) g;
                  err = (if fst setfl_res \<noteq> 0 \<and> snd setfl_res = ENOTTY then 0
                         else fst setfl_res)
              in if err \<noteq> 0 then (None, g1)
                 else (Some p,
                       g1\<lparr>mem := (mem g1)(p \<mapsto> zeroed\<lparr>fd := d, type := kAIO_TYPE_CONNECTION,
                                                        callback := eventCallback,
                                                        userdata := userData\<rparr>)\<rparr>))))"

definition AsyncIO_NewConnection_select ::
  "AsyncIO option \<Rightarrow> int \<times> int \<Rightarrow> int \<Rightarrow> nat \<Rightarrow> nat \<Rightarrow> globals \<Rightarrow> AsyncIO option \<times> globals" where
  "AsyncIO_NewConnection_select calloc_res setfl_res d eventCallback userData g =
     (case calloc_res of
        None \<Rightarrow> (None, g)
      | Some p \<Rightarrow>
          (let fl = fcntl_GETFL g d in
           if fl = - 1 then (None, g)
           else
             (let g1 = fcntl_SETFL setfl_res d (fl OR O_NONBLOCK) g;
                  err = (if fst setfl_res \<noteq> 0 \<and> snd setfl_res = ENOTTY then 0
                         else fst setfl_res)
              in if err \<noteq> 0 then (None, g1)
                 else
                   (let g2 = snd (lwip_socket_set_userdata d p g1)
                    in (Some p,
                        g2\<lparr>mem := (mem g2)(p \<mapsto> zeroed\<lparr>fd := d, type := kAIO_TYPE_CONNECTION,
                                                         callback := eventCallback,
                                                         userdata := userData\<rparr>)\<rparr>)))))"

text \<open>\<open>AsyncIO_NotifyOnReadability\<close> and \<open>AsyncIO_NotifyOnWritability\<close>.\<close>

definition AsyncIO_NotifyOnReadability_kqueue ::
  "AsyncIO option \<Rightarrow> globals \<Rightarrow> fault + int \<times> globals" where
  "AsyncIO_NotifyOnReadability_kqueue anio g =
     (if anioKQ g < 0 then Inr (- 1, g)
      else case anio of
        None \<Rightarrow> Inl BadPointer
      | Some p \<Rightarrow>
          (case mem g p of
             None \<Rightarrow> Inl BadPointer
           | Some a \<Rightarrow>
               (let (res, g1) = kevent_change
                      \<lparr>ident = fd a, kfilter = EVFILT_READ, flags = EV_ADD OR EV_ONESHOT,
                       udata = anio\<rparr> g
                in if fst res \<noteq> 0 then Inr (- 1, g1)
                   else Inr (0, g1\<lparr>mem := (mem g1)(p \<mapsto> a\<lparr>notifyOnRead := True\<rparr>)\<rparr>))))"

definition AsyncIO_NotifyOnWritability_kqueue ::
  "AsyncIO option \<Rightarrow> globals \<Rightarrow> fault + int \<times> globals" where
  "AsyncIO_NotifyOnWritability_kqueue anio g =
     (if anioKQ g < 0 then Inr (- 1, g)
      else case anio of
        None \<Rightarrow> Inl BadPointer
      | Some p \<Rightarrow>
          (case mem g p of
             None \<Rightarrow> Inl BadPointer
           | Some a \<Rightarrow>
               (let (res, g1) = kevent_change
                      \<lparr>ident = fd a, kfilter = EVFILT_WRITE, flags = EV_ADD OR EV_ONESHOT,
                       udata = anio\<rparr> g
                in if fst res \<noteq> 0 then Inr (- 1, g1)
                   else Inr (0, g1\<lparr>mem := (mem g1)(p \<mapsto> a\<lparr>notifyOnWrite := True\<rparr>)\<rparr>))))"

definition AsyncIO_NotifyOnReadability_select ::
  "AsyncIO option \<Rightarrow> globals \<Rightarrow> fault + int \<times> globals" where
  "AsyncIO_NotifyOnReadability_select anio g =
     (case anio of
        None \<Rightarrow> Inl BadPointer
      | Some p \<Rightarrow>
          (case mem g p of
             None \<Rightarrow> Inl BadPointer
           | Some a \<Rightarrow>
               (let (err, g1) = lwip_socket_set_userdata (fd a) p g
                in if err \<noteq> 0 then Inr (- 1, g1)
                   else Inr (0, g1\<lparr>anioReadSet := insert (fd a) (anioReadSet g1),
                                   mem := (mem g1)(p \<mapsto> a\<lparr>notifyOnRead := True\<rparr>)\<rparr>))))"

definition AsyncIO_NotifyOnWritability_select ::
  "AsyncIO option \<Rightarrow> globals \<Rightarrow> fault + int \<times> globals" where
  "AsyncIO_NotifyOnWritability_select anio g =
     (case anio of
        None \<Rightarrow> Inl BadPointer
      | Some p \<Rightarrow>
          (case mem g p of
             None \<Rightarrow> Inl BadPointer
           | Some a \<Rightarrow>
               (let (err, g1) = lwip_socket_set_userdata (fd a) p g
                in if err \<noteq> 0 then Inr (- 1, g1)
                   else Inr (0, g1\<lparr>anioWriteSet := insert (fd a) (anioWriteSet g1),
                                   mem := (mem g1)(p \<mapsto> a\<lparr>notifyOnWrite := True\<rparr>)\<rparr>))))"

text \<open>
  The tail both builds of \<open>AsyncIO_Release\<close> share: \<open>ForgetFD\<close> when asked to close,
  the reset of \<open>anioInProgress\<close>, \<open>ForgetMem\<close>, and \<open>result = 0\<close>.
\<close>

definition release_tail :: "AsyncIO \<Rightarrow> bool \<Rightarrow> globals \<Rightarrow> fault + int \<times> globals" where
  "release_tail p closeDescriptor g =
     (case mem g p of
        None \<Rightarrow> Inl BadPointer
      | Some a \<Rightarrow>
          (let g1 = (if closeDescriptor \<and> fd a \<ge> 0 then close_fd (fd a) g else g);
               g2 = (if anioInProgress g1 = Some p then g1\<lparr>anioInProgress := None\<rparr> else g1)
           in Inr (0, g2\<lparr>mem := (mem g2)(p := None)\<rparr>)))"

text \<open>\<open>AsyncIO_Release\<close> in the kqueue build; a failing \<open>EV_DELETE\<close> is only logged.\<close>

definition AsyncIO_Release_kqueue ::
  "AsyncIO option \<Rightarrow> bool \<Rightarrow> globals \<Rightarrow> fault + int \<times> globals" where
  "AsyncIO_Release_kqueue anio closeDescriptor g =
     (case anio of
        None \<Rightarrow> Inr (- 1, g)
      | Some p \<Rightarrow>
          (case mem g p of
             None \<Rightarrow> Inl BadPointer
           | Some a \<Rightarrow>
               (let g1 = (if type a = kAIO_TYPE_TIMER
                          then snd (AsyncIO_DisableTimer_kqueue anio g) else g);
                    g2 = (if notifyOnRead a
                          then snd (kevent_change
                                 \<lparr>ident = fd a, kfilter = EVFILT_READ, flags = EV_DELETE,
                                  udata = anio\<rparr> g1)
                          else g1);
                    g3 = (if notifyOnWrite a
                          then snd (kevent_change
                                 \<lparr>ident = fd a, kfilter = EVFILT_WRITE, flags = EV_DELETE,
                                  udata = anio\<rparr> g2)
                          else g2)
                in release_tail p closeDescriptor g3)))"

text \<open>\<open>AsyncIO_Release\<close> in the \<open>select\<close> build; the result of
  \<open>AsyncIO_DisableTimer\<close> is not looked at.\<close>

definition AsyncIO_Release_select ::
  "AsyncIO option \<Rightarrow> bool \<Rightarrow> globals \<Rightarrow> (fault + int \<times> globals) option" where
  "AsyncIO_Release_select anio closeDescriptor g =
     (case anio of
        None \<Rightarrow> Some (Inr (- 1, g))
      | Some p \<Rightarrow>
          (case mem g p of
             None \<Rightarrow> Some (Inl BadPointer)
           | Some a \<Rightarrow>
               and_then (if type a = kAIO_TYPE_TIMER then AsyncIO_DisableTimer_select anio g
                         else Some (Inr (0, g)))
                 (\<lambda>(r, g1).
                    case mem g1 p of
                      None \<Rightarrow> Some (Inl BadPointer)
                    | Some a1 \<Rightarrow>
                        Some (release_tail p closeDescriptor
                                (g1\<lparr>anioReadSet := anioReadSet g1 - {fd a1},
                                    anioWriteSet := anioWriteSet g1 - {fd a1}\<rparr>)))))"

section \<open>Waiting and dispatching\<close>

text \<open>
  The registered callbacks are code of the caller.  Called with the function pointer
  stored in the handle, the event, the handle, the descriptor and the user data, they may
  change the state through any of the operations above; they may also fault or never
  return.  The dispatcher's record of the callbacks it has made (event, handle,
  descriptor) is kept apart from the state, out of their reach.
\<close>

type_synonym user_code = "nat \<Rightarrow> int \<Rightarrow> AsyncIO \<Rightarrow> int \<Rightarrow> nat \<Rightarrow> globals \<Rightarrow> (fault + globals) option"

type_synonym event = "int \<times> AsyncIO \<times> int"

text \<open>\<open>(*(anio->callback)) (eventID, anio, fd, anio->userdata)\<close>.\<close>

definition invoke ::
  "user_code \<Rightarrow> int \<Rightarrow> AsyncIO \<Rightarrow> int \<Rightarrow> globals \<times> event list
     \<Rightarrow> (fault + globals \<times> event list) option" where
  "invoke prog eventID anio d st =
     (case mem (fst st) anio of
        None \<Rightarrow> Some (Inl BadPointer)
      | Some a \<Rightarrow>
          and_then (prog (callback a) eventID anio d (userdata a) (fst st))
            (\<lambda>g'. Some (Inr (g', snd st @ [(eventID, anio, d)]))))"

text \<open>
  \<open>struct OpaqueAsyncIOEventContext\<close>: the \<open>select\<close> build uses the first four
  fields, the kqueue build \<open>num\<close> and \<open>kv\<close>.
\<close>

record OpaqueAsyncIOEventContext =
  num :: int
  maxFd :: int
  readfds :: "int set"
  writefds :: "int set"
  kv :: "kevent_s list"

text \<open>A \<open>struct timeval *\<close> local: never assigned, \<open>NULL\<close>, or pointing to a value.\<close>

datatype timeval_ptr = Indeterminate | Null | Ptr timeval

subsection \<open>The \<open>select\<close> build\<close>

text \<open>
  The loop \<open>for (i = 0; i < LWIP_SELECT_MAXNFDS; i++)\<close> that copies the two interest
  sets and finds \<open>maxFd\<close>; the constant comes from lwIP and is a parameter.
\<close>

fun scan_fd_sets ::
  "int set \<Rightarrow> int set \<Rightarrow> int list \<Rightarrow> int \<times> int set \<times> int set \<Rightarrow> int \<times> int set \<times> int set" where
  "scan_fd_sets rs ws [] acc = acc"
| "scan_fd_sets rs ws (i # is) (mx, r, w) =
     (let (mx1, r1) = (if i \<in> rs then (i, insert i r) else (mx, r));
          (mx2, w1) = (if i \<in> ws then (i, insert i w) else (mx1, w))
      in scan_fd_sets rs ws is (mx2, r1, w1))"

definition build_fd_sets :: "int \<Rightarrow> globals \<Rightarrow> int \<times> int set \<times> int set" where
  "build_fd_sets maxnfds g =
     scan_fd_sets (anioReadSet g) (anioWriteSet g) [0..maxnfds - 1] (- 1, {}, {})"

text \<open>
  What \<open>select\<close> answers: its return value and the descriptors it found readable and
  writable; it leaves in each set only descriptors that were in it.
\<close>

record select_result =
  sel_ret :: int
  sel_readable :: "int set"
  sel_writable :: "int set"

text \<open>
  The comparison of the two timeouts in \<open>AsyncIO_WaitForEvents\<close>.  The source names
  the second field \<open>tv_nsec\<close>, which a \<open>struct timeval\<close> does not have; it is read as
  \<open>tv_usec\<close>.
\<close>

definition timeval_gt :: "timeval \<Rightarrow> timeval \<Rightarrow> bool" where
  "timeval_gt a b = (tv_sec a > tv_sec b \<or> (tv_sec a = tv_sec b \<and> tv_usec a > tv_usec b))"

text \<open>
  The value of the local \<open>to\<close> of \<open>AsyncIO_WaitForEvents\<close> (\<open>select\<close> build) when it
  reaches \<open>select\<close>, from the caller's \<open>timeout\<close> and what
  \<open>AsyncIO_GetNextTimerFireTime\<close> wrote.  \<open>to\<close> is declared without a value and is
  assigned only when a timer was found.
\<close>

definition wait_timeout_select :: "timeval option \<Rightarrow> (timeval \<times> AsyncIO) option \<Rightarrow> timeval_ptr" where
  "wait_timeout_select timeout nxt =
     (case nxt of
        None \<Rightarrow> Indeterminate
      | Some (aio_timeout, t) \<Rightarrow>
          (case timeout of
             None \<Rightarrow> Ptr aio_timeout
           | Some c \<Rightarrow> if timeval_gt aio_timeout c then Ptr c else Ptr aio_timeout))"

text \<open>
  \<open>AsyncIO_WaitForEvents\<close> in the \<open>select\<close> build, called with a valid
  \<open>outEventsContext\<close>.  The result is the returned \<open>int\<close>, the context, the timeout
  pointer \<open>select\<close> was given and the new state.
\<close>

definition AsyncIO_WaitForEvents_select ::
  "int \<Rightarrow> 32 word \<Rightarrow> timeval option \<Rightarrow> select_result \<Rightarrow> globals
     \<Rightarrow> (fault + int \<times> OpaqueAsyncIOEventContext \<times> timeval_ptr \<times> globals) option" where
  "AsyncIO_WaitForEvents_select maxnfds now timeout sel g =
     (let (mx, r, w) = build_fd_sets maxnfds g;
          g1 = g\<lparr>aio_next_enabled_timer := None\<rparr>
      in and_then (AsyncIO_GetNextTimerFireTime now g1)
           (\<lambda>nxt.
              let g2 = (case nxt of
                          None \<Rightarrow> g1
                        | Some (tv, t) \<Rightarrow> g1\<lparr>aio_next_enabled_timer := Some t\<rparr>);
                  to = wait_timeout_select timeout nxt
              in if to = Indeterminate then Some (Inl UninitializedRead)
                 else if \<not> (mx \<ge> 0 \<or> to \<noteq> Null)
                   then Some (Inr (- 1, \<lparr>num = 0, maxFd = mx, readfds = r, writefds = w,
                                          kv = []\<rparr>, to, g2))
                 else Some (Inr (0, \<lparr>num = sel_ret sel, maxFd = mx,
                                      readfds = r \<inter> sel_readable sel,
                                      writefds = w \<inter> sel_writable sel, kv = []\<rparr>, to, g2))))"

text \<open>The block run for a descriptor found in \<open>readfds\<close>.\<close>

definition select_read_event ::
  "user_code \<Rightarrow> int \<Rightarrow> globals \<times> event list \<Rightarrow> (fault + globals \<times> event list) option" where
  "select_read_event prog i st =
     (case sock_userdata (fst st) i of
        None \<Rightarrow> Some (Inl BadPointer)
      | Some anio \<Rightarrow>
          (let g1 = (fst st)\<lparr>anioReadSet := anioReadSet (fst st) - {i},
                             anioInProgress := Some anio\<rparr>
           in case mem g1 anio of
                None \<Rightarrow> Some (Inl BadPointer)
              | Some a \<Rightarrow>
                  and_then
                    (if type a = kAIO_TYPE_LISTENER
                       then invoke prog kAIO_NEW_CONNECTION anio (fd a) (g1, snd st)
                     else if type a = kAIO_TYPE_CONNECTION
                       then invoke prog kAIO_DATA_AVAILABLE anio (fd a)
                              (g1\<lparr>mem := (mem g1)(anio \<mapsto> a\<lparr>notifyOnRead := False\<rparr>)\<rparr>, snd st)
                     else Some (Inr (g1, snd st)))
                    (\<lambda>st2. Some (Inr ((fst st2)\<lparr>anioInProgress := None\<rparr>, snd st2)))))"

text \<open>The block run for a descriptor found in \<open>writefds\<close>.\<close>

definition select_write_event ::
  "user_code \<Rightarrow> int \<Rightarrow> globals \<times> event list \<Rightarrow> (fault + globals \<times> event list) option" where
  "select_write_event prog i st =
     (case sock_userdata (fst st) i of
        None \<Rightarrow> Some (Inl BadPointer)
      | Some anio \<Rightarrow>
          (let g1 = (fst st)\<lparr>anioWriteSet := anioWriteSet (fst st) - {i},
                             anioInProgress := Some anio\<rparr>
           in case mem g1 anio of
                None \<Rightarrow> Some (Inl BadPointer)
              | Some a \<Rightarrow>
                  and_then
                    (invoke prog kAIO_READY_FOR_WRITE anio (fd a)
                       (g1\<lparr>mem := (mem g1)(anio \<mapsto> a\<lparr>notifyOnWrite := False\<rparr>)\<rparr>, snd st))
                    (\<lambda>st2. Some (Inr ((fst st2)\<lparr>anioInProgress := None\<rparr>, snd st2)))))"

text \<open>
  The loop \<open>for (i = 0; i <= maxFd; i++)\<close> over the descriptors, with the count of
  events still to serve.
\<close>

fun select_fd_loop ::
  "user_code \<Rightarrow> int set \<Rightarrow> int set \<Rightarrow> int list \<Rightarrow> int \<Rightarrow> globals \<times> event list
     \<Rightarrow> (fault + globals \<times> event list) option" where
  "select_fd_loop prog rd wr [] n st = Some (Inr st)"
| "select_fd_loop prog rd wr (i # is) n st =
     (if n = 0 then Some (Inr st)
      else
        and_then (if i \<in> rd then select_read_event prog i st else Some (Inr st))
          (\<lambda>st1.
             and_then (if i \<in> wr then select_write_event prog i st1 else Some (Inr st1))
               (\<lambda>st2. select_fd_loop prog rd wr is
                         (n - (if i \<in> rd then 1 else 0) - (if i \<in> wr then 1 else 0)) st2)))"

text \<open>The branch taken when \<open>select\<close> returns 0: the timer found before the wait fires.\<close>

definition select_timeout_event ::
  "user_code \<Rightarrow> globals \<times> event list \<Rightarrow> (fault + globals \<times> event list) option" where
  "select_timeout_event prog st =
     (case aio_next_enabled_timer (fst st) of
        None \<Rightarrow> Some (Inr st)
      | Some anio \<Rightarrow>
          and_then (AsyncIO_DisableTimer_select (Some anio) (fst st))
            (\<lambda>(r, g1).
               and_then (invoke prog kAIO_TIMER_FIRED anio (- 1)
                           (g1\<lparr>anioInProgress := Some anio\<rparr>, snd st))
                 (\<lambda>st2. Some (Inr ((fst st2)\<lparr>anioInProgress := None\<rparr>, snd st2)))))"

text \<open>
  \<open>AsyncIO_ProcessEvents\<close> in the \<open>select\<close> build, called with a valid context.  The
  source uses \<open>i\<close> and, in the write block, \<open>num\<close> without declaring them; they are
  read as the loop index and the context's count, as in \<open>AsyncIO_Run\<close>.
\<close>

definition AsyncIO_ProcessEvents_select ::
  "user_code \<Rightarrow> OpaqueAsyncIOEventContext \<Rightarrow> globals \<times> event list
     \<Rightarrow> (fault + int \<times> globals \<times> event list) option" where
  "AsyncIO_ProcessEvents_select prog ctx st =
     and_then
       (if num ctx = 0 then select_timeout_event prog st
        else if num ctx > 0
          then select_fd_loop prog (readfds ctx) (writefds ctx) [0..maxFd ctx] (num ctx) st
        else Some (Inr st))
       (\<lambda>st1. Some (Inr (0, st1)))"

text \<open>
  One turn of the \<open>while (1)\<close> loop of \<open>AsyncIO_Run\<close> in the \<open>select\<close> build,
  up to the test of \<open>keepRunning\<close>, at the clock reading \<open>now\<close> and with the answer
  \<open>sel\<close> of \<open>select\<close>.  The flag in the result is false when the turn leaves the loop
  (the failed \<open>require\<close>, or \<open>select\<close> returning an error).
\<close>

definition Run_select_turn ::
  "int \<Rightarrow> user_code \<Rightarrow> 32 word \<Rightarrow> select_result \<Rightarrow> globals \<times> event list
     \<Rightarrow> (fault + bool \<times> globals \<times> event list) option" where
  "Run_select_turn maxnfds prog now sel st =
     (let (mx, r, w) = build_fd_sets maxnfds (fst st);
          g1 = (fst st)\<lparr>aio_next_enabled_timer := None\<rparr>
      in and_then (AsyncIO_GetNextTimerFireTime now g1)
           (\<lambda>nxt.
              let g2 = (case nxt of
                          None \<Rightarrow> g1
                        | Some (tv, t) \<Rightarrow> g1\<lparr>aio_next_enabled_timer := Some t\<rparr>)
              in if \<not> (mx \<ge> 0 \<or> nxt \<noteq> None) then Some (Inr (False, g2, snd st))
                 else if sel_ret sel = 0
                   then and_then (select_timeout_event prog (g2, snd st))
                          (\<lambda>st1. Some (Inr (True, st1)))
                 else if sel_ret sel > 0
                   then and_then (select_fd_loop prog (r \<inter> sel_readable sel)
                                    (w \<inter> sel_writable sel) [0..mx] (sel_ret sel) (g2, snd st))
                          (\<lambda>st1. Some (Inr (True, st1)))
                 else Some (Inr (False, g2, snd st))))"

text \<open>
  \<open>AsyncIO_Run\<close> in the \<open>select\<close> build.  The list gives the clock reading and the
  answer of \<open>select\<close> for the successive turns, and \<open>None\<close> says that the loop is
  still running when the list is used up.  \<open>result\<close> is never assigned in this build,
  and the exit resets \<open>anioInProgress\<close>.
\<close>

fun AsyncIO_Run_select ::
  "int \<Rightarrow> user_code \<Rightarrow> bool \<Rightarrow> (32 word \<times> select_result) list \<Rightarrow> globals \<times> event list
     \<Rightarrow> (fault + int \<times> globals \<times> event list) option" where
  "AsyncIO_Run_select maxnfds prog keepRunning [] st = None"
| "AsyncIO_Run_select maxnfds prog keepRunning ((now, sel) # turns) st =
     (case Run_select_turn maxnfds prog now sel st of
        None \<Rightarrow> None
      | Some (Inl f) \<Rightarrow> Some (Inl f)
      | Some (Inr (going, st1)) \<Rightarrow>
          if going \<and> keepRunning
            then AsyncIO_Run_select maxnfds prog keepRunning turns st1
          else Some (Inr (- 1, (fst st1)\<lparr>anioInProgress := None\<rparr>, snd st1)))"

subsection \<open>The kqueue build\<close>

text \<open>
  What one \<open>kevent\<close> wait answers: an error with its \<open>errno\<close>, or the entries that
  have become ready (see \<open>kevent_collect\<close>).
\<close>

datatype kevent_result = KeventError int | KeventFired "(int \<times> int \<times> 16 word) list"

definition kMaxAsyncIOEvents :: nat where "kMaxAsyncIOEvents = 16"

text \<open>
  \<open>AsyncIO_WaitForEvents\<close> in the kqueue build, called with a valid
  \<open>outEventsContext\<close>: the caller's timeout is handed to the kernel as it is (as a
  \<open>struct timespec\<close>, \<open>None\<close> for \<open>NULL\<close>), timers being the kernel's business.
  The result is the returned \<open>int\<close>, the context, the timeout \<open>kevent\<close> was given as
  (seconds, nanoseconds), and the new state.
\<close>

definition AsyncIO_WaitForEvents_kqueue ::
  "timeval option \<Rightarrow> kevent_result \<Rightarrow> globals
     \<Rightarrow> int \<times> OpaqueAsyncIOEventContext \<times> (int \<times> int) option \<times> globals" where
  "AsyncIO_WaitForEvents_kqueue timeout kres g =
     (let to = (case timeout of
                  None \<Rightarrow> None
                | Some t \<Rightarrow> Some (tv_sec t, tv_usec t * 1000))
      in case kres of
           KeventError e \<Rightarrow>
             (0, \<lparr>num = - 1, maxFd = 0, readfds = {}, writefds = {}, kv = []\<rparr>, to, g)
         | KeventFired fired \<Rightarrow>
             (let (evs, kn) = kevent_collect (knotes g) fired kMaxAsyncIOEvents
              in (0, \<lparr>num = int (length evs), maxFd = 0, readfds = {}, writefds = {},
                      kv = evs\<rparr>, to, g\<lparr>knotes := kn\<rparr>)))"

text \<open>
  The \<open>switch (kv.filter)\<close> of the dispatcher.  The handle is the event's user
  pointer; the descriptor passed on is the event's identifier.
\<close>

definition kqueue_filter_event ::
  "user_code \<Rightarrow> kevent_s \<Rightarrow> globals \<times> event list \<Rightarrow> (fault + globals \<times> event list) option" where
  "kqueue_filter_event prog e st =
     (if kfilter e = EVFILT_READ then
        (case udata e of
           None \<Rightarrow> Some (Inl BadPointer)
         | Some anio \<Rightarrow>
             (case mem (fst st) anio of
                None \<Rightarrow> Some (Inl BadPointer)
              | Some a \<Rightarrow>
                  if type a = kAIO_TYPE_LISTENER
                    then invoke prog kAIO_NEW_CONNECTION anio (ident e) st
                  else if type a = kAIO_TYPE_CONNECTION
                    then invoke prog kAIO_DATA_AVAILABLE anio (ident e)
                           ((fst st)\<lparr>mem := (mem (fst st))(anio \<mapsto> a\<lparr>notifyOnRead := False\<rparr>)\<rparr>,
                            snd st)
                  else Some (Inr st)))
      else if kfilter e = EVFILT_WRITE then
        (case udata e of
           None \<Rightarrow> Some (Inl BadPointer)
         | Some anio \<Rightarrow>
             (case mem (fst st) anio of
                None \<Rightarrow> Some (Inl BadPointer)
              | Some a \<Rightarrow>
                  invoke prog kAIO_READY_FOR_WRITE anio (ident e)
                    ((fst st)\<lparr>mem := (mem (fst st))(anio \<mapsto> a\<lparr>notifyOnWrite := False\<rparr>)\<rparr>,
                     snd st)))
      else if kfilter e = EVFILT_TIMER \<or> kfilter e = EVFILT_PROC \<or> kfilter e = EVFILT_SIGNAL then
        (case udata e of
           None \<Rightarrow> Some (Inl BadPointer)
         | Some anio \<Rightarrow>
             invoke prog
               (if kfilter e = EVFILT_TIMER then kAIO_TIMER_FIRED
                else if kfilter e = EVFILT_PROC then kAIO_PROCESS_EXITED
                else kAIO_SIGNAL_DELIVERED)
               anio (if kfilter e = EVFILT_TIMER then - 1 else ident e) st)
      else Some (Inr st))"

text \<open>
  The handling of one kernel event, as written twice in the source (in
  \<open>AsyncIO_ProcessEvents\<close> and in \<open>AsyncIO_Run\<close>): mark the handle as in progress,
  dispatch on the filter, and on \<open>EV_EOF\<close> of a read event tell the handle that the
  connection closed, unless the marker no longer names it, in which case
  \<open>require_continue_quiet\<close> goes on to the next event at once.
\<close>

definition kqueue_event ::
  "user_code \<Rightarrow> kevent_s \<Rightarrow> globals \<times> event list \<Rightarrow> (fault + globals \<times> event list) option" where
  "kqueue_event prog e st =
     and_then (kqueue_filter_event prog e ((fst st)\<lparr>anioInProgress := udata e\<rparr>, snd st))
       (\<lambda>st1.
          if flags e AND EV_EOF \<noteq> 0 \<and> kfilter e = EVFILT_READ then
            (if anioInProgress (fst st1) \<noteq> udata e then Some (Inr st1)
             else case udata e of
                    None \<Rightarrow> Some (Inl BadPointer)
                  | Some anio \<Rightarrow>
                      and_then (invoke prog kAIO_CONNECTION_CLOSED anio (ident e) st1)
                        (\<lambda>st2. Some (Inr ((fst st2)\<lparr>anioInProgress := None\<rparr>, snd st2))))
          else Some (Inr ((fst st1)\<lparr>anioInProgress := None\<rparr>, snd st1)))"

text \<open>The loop \<open>for (i = 0; i < ctx->num; i++)\<close> over the events of one wait.\<close>

fun kqueue_events ::
  "user_code \<Rightarrow> kevent_s list \<Rightarrow> globals \<times> event list \<Rightarrow> (fault + globals \<times> event list) option" where
  "kqueue_events prog [] st = Some (Inr st)"
| "kqueue_events prog (e # es) st =
     and_then (kqueue_event prog e st) (\<lambda>st1. kqueue_events prog es st1)"

text \<open>\<open>AsyncIO_ProcessEvents\<close> in the kqueue build, called with a valid context.\<close>

definition AsyncIO_ProcessEvents_kqueue ::
  "user_code \<Rightarrow> OpaqueAsyncIOEventContext \<Rightarrow> globals \<times> event list
     \<Rightarrow> (fault + int \<times> globals \<times> event list) option" where
  "AsyncIO_ProcessEvents_kqueue prog ctx st =
     and_then (kqueue_events prog (take (nat (num ctx)) (kv ctx)) st)
       (\<lambda>st1. Some (Inr (0, st1)))"

text \<open>
  \<open>AsyncIO_Run\<close> in the kqueue build: one event per \<open>kevent\<close> call.  The list gives
  the answers of the successive calls; \<open>None\<close> says that the loop is still running when
  the list is used up.  \<open>in_debugger\<close> is \<open>debug_running_in_debugger ()\<close> on Apple
  systems and false elsewhere.
\<close>

fun Run_kqueue_loop ::
  "user_code \<Rightarrow> bool \<Rightarrow> bool \<Rightarrow> kevent_result list \<Rightarrow> globals \<times> event list
     \<Rightarrow> (fault + int \<times> globals \<times> event list) option" where
  "Run_kqueue_loop prog keepRunning in_debugger [] st = None"
| "Run_kqueue_loop prog keepRunning in_debugger (KeventError e # turns) st =
     (if e = EINTR \<and> in_debugger
        then Run_kqueue_loop prog keepRunning in_debugger turns st
      else Some (Inr (- 1, (fst st)\<lparr>anioInProgress := None\<rparr>, snd st)))"
| "Run_kqueue_loop prog keepRunning in_debugger (KeventFired fired # turns) st =
     (let (evs, kn) = kevent_collect (knotes (fst st)) fired 1;
          g1 = (fst st)\<lparr>knotes := kn\<rparr>
      in case evs of
           [] \<Rightarrow> Some (Inr (if keepRunning then - 1 else 0, g1\<lparr>anioInProgress := None\<rparr>, snd st))
         | e # es \<Rightarrow>
             and_then (kqueue_event prog e (g1, snd st))
               (\<lambda>st1. Run_kqueue_loop prog keepRunning in_debugger turns st1))"

definition AsyncIO_Run_kqueue ::
  "user_code \<Rightarrow> bool \<Rightarrow> bool \<Rightarrow> kevent_result list \<Rightarrow> globals \<times> event list
     \<Rightarrow> (fault + int \<times> globals \<times> event list) option" where
  "AsyncIO_Run_kqueue prog keepRunning in_debugger turns st =
     Run_kqueue_loop prog keepRunning in_debugger turns st"

text \<open>A callback that releases its own handle, without closing the descriptor, when it
  is told that data is available, and does nothing otherwise.\<close>

definition release_on_data :: user_code where
  "release_on_data cb eventID anio d ud g =
     (if eventID = kAIO_DATA_AVAILABLE
      then (case AsyncIO_Release_kqueue (Some anio) False g of
              Inl f \<Rightarrow> Some (Inl f)
            | Inr (r, g1) \<Rightarrow> Some (Inr g1))
      else Some (Inr g))"

text \<open>A callback that does nothing.\<close>

definition idle :: user_code where
  "idle cb eventID anio d ud g = Some (Inr g)"

text \<open>
  A caller of the \<open>select\<close> build that alternates \<open>AsyncIO_WaitForEvents\<close> and
  \<open>AsyncIO_ProcessEvents\<close>; each cycle has its clock reading, its timeout and the
  answer of \<open>select\<close>.
\<close>

fun select_cycles ::
  "int \<Rightarrow> user_code \<Rightarrow> (32 word \<times> timeval option \<times> select_result) list
     \<Rightarrow> globals \<times> event list \<Rightarrow> (fault + globals \<times> event list) option" where
  "select_cycles maxnfds prog [] st = Some (Inr st)"
| "select_cycles maxnfds prog ((now, timeout, sel) # cs) st =
     (case AsyncIO_WaitForEvents_select maxnfds now timeout sel (fst st) of
        None \<Rightarrow> None
      | Some (Inl f) \<Rightarrow> Some (Inl f)
      | Some (Inr (r, ctx, to, g1)) \<Rightarrow>
          (case AsyncIO_ProcessEvents_select prog ctx (g1, snd st) of
             None \<Rightarrow> None
           | Some (Inl f) \<Rightarrow> Some (Inl f)
           | Some (Inr (r1, st1)) \<Rightarrow> select_cycles maxnfds prog cs st1))"

text \<open>
  \<open>no_close_added tr tr'\<close>: the record \<open>tr'\<close> continues \<open>tr\<close>, and none of the
  callbacks made since was for \<open>kAIO_CONNECTION_CLOSED\<close>.
\<close>

definition no_close_added :: "event list \<Rightarrow> event list \<Rightarrow> bool" where
  "no_close_added tr tr' =
     (take (length tr) tr' = tr
      \<and> list_all (\<lambda>e. fst e \<noteq> kAIO_CONNECTION_CLOSED) (drop (length tr) tr'))"

text \<open>
  States for the examples below: descriptor 5 open for reading and writing, then a
  connection handle on it at address 1 (callback 7, user data 9), then the handle armed
  for reading and for writing; each in both builds.
\<close>

definition open_fd5 :: globals where
  "open_fd5 = initial_globals\<lparr>fd_status := [5 \<mapsto> 2]\<rparr>"

definition armed_both_select :: globals where
  "armed_both_select =
     (let g0 = snd (AsyncIO_NewConnection_select (Some 1) (0, 0) 5 7 9 open_fd5) in
      case AsyncIO_NotifyOnReadability_select (Some 1) g0 of
        Inl f \<Rightarrow> g0
      | Inr (r, g1) \<Rightarrow>
          (case AsyncIO_NotifyOnWritability_select (Some 1) g1 of
             Inl f \<Rightarrow> g1
           | Inr (r, g2) \<Rightarrow> g2))"

definition armed_both_kqueue :: globals where
  "armed_both_kqueue =
     (let g0 = snd (AsyncIO_NewConnection_kqueue (Some 1) (0, 0) 5 7 9 open_fd5) in
      case AsyncIO_NotifyOnReadability_kqueue (Some 1) g0 of
        Inl f \<Rightarrow> g0
      | Inr (r, g1) \<Rightarrow>
          (case AsyncIO_NotifyOnWritability_kqueue (Some 1) g1 of
             Inl f \<Rightarrow> g1
           | Inr (r, g2) \<Rightarrow> g2))"

text \<open>The constructors that take a descriptor, in both builds.\<close>

definition descriptor_constructors ::
  "(AsyncIO option \<Rightarrow> int \<times> int \<Rightarrow> int \<Rightarrow> nat \<Rightarrow> nat \<Rightarrow> globals \<Rightarrow> AsyncIO option \<times> globals) list" where
  "descriptor_constructors =
     [AsyncIO_NewConnectionListener_kqueue, AsyncIO_NewConnectionListener_select,
      AsyncIO_NewConnection_kqueue, AsyncIO_NewConnection_select]"

text \<open>The self-releasing callback for the \<open>select\<close> build.\<close>

definition release_on_data_select :: user_code where
  "release_on_data_select cb eventID anio d ud g =
     (if eventID = kAIO_DATA_AVAILABLE
      then and_then (AsyncIO_Release_select (Some anio) False g) (\<lambda>(r, g1). Some (Inr g1))
      else Some (Inr g))"

text \<open>Three timer handles at the addresses 1, 2 and 3, none armed.\<close>

definition three_timers :: globals where
  "three_timers =
     snd (AsyncIO_NewTimer (Some 3) 0 0
       (snd (AsyncIO_NewTimer (Some 2) 0 0
         (snd (AsyncIO_NewTimer (Some 1) 0 0 initial_globals)))))"

text \<open>
  The \<open>select\<close> build after \<open>AsyncIO_EnableTimer\<close> on the three handles with 50, 10
  and 30 milliseconds, all at the clock reading \<open>now\<close>.
\<close>

definition three_armed :: "32 word \<Rightarrow> globals" where
  "three_armed now =
     (case enable_timers now [(1, 50), (2, 10), (3, 30)] three_timers of
        Inr g \<Rightarrow> g
      | Inl f \<Rightarrow> three_timers)"

text \<open>The \<open>select\<close> build after one \<open>AsyncIO_EnableTimer\<close> on the handle 1.\<close>

definition armed_once :: globals where
  "armed_once =
     (case enable_timers 100 [(1, 50)] three_timers of Inr g \<Rightarrow> g | Inl f \<Rightarrow> three_timers)"

text \<open>
  The \<open>select\<close> build after \<open>AsyncIO_EnableTimer\<close> on the handles 1 and 3 only:
  the timer 2 is allocated and not armed.
\<close>

definition two_armed :: globals where
  "two_armed =
     (case enable_timers 100 [(1, 50), (3, 30)] three_timers of
        Inr g \<Rightarrow> g
      | Inl f \<Rightarrow> three_timers)"

text \<open>
  The number of callbacks made for the event \<open>ev\<close>, read off the dispatcher's record.
\<close>

definition callbacks_for :: "int \<Rightarrow> event list \<Rightarrow> nat" where
  "callbacks_for ev tr = length (filter (\<lambda>e. fst e = ev) tr)"

text \<open>
  Callbacks that never arm an interest: whatever they are called with, they return with
  no descriptor added to the two interest sets (\<open>select\<close> build), and with no kernel
  registration added or replaced (kqueue build).  In particular such callbacks call
  neither \<open>AsyncIO_NotifyOnReadability\<close> nor \<open>AsyncIO_NotifyOnWritability\<close>.
\<close>

definition never_arms_select :: "user_code \<Rightarrow> bool" where
  "never_arms_select prog =
     (\<forall>cb ev anio d ud g g'. prog cb ev anio d ud g = Some (Inr g') \<longrightarrow>
        anioReadSet g' \<subseteq> anioReadSet g \<and> anioWriteSet g' \<subseteq> anioWriteSet g)"

definition never_arms_kqueue :: "user_code \<Rightarrow> bool" where
  "never_arms_kqueue prog =
     (\<forall>cb ev anio d ud g g'. prog cb ev anio d ud g = Some (Inr g') \<longrightarrow>
        knotes g' \<subseteq>\<^sub>m knotes g)"

text \<open>
  The kernel registrations with the filter \<open>f\<close>, and the condition that the table is
  keyed by the filter of its entries and that every registration with the filter \<open>f\<close>
  was made with \<open>EV_ONESHOT\<close> (as \<open>AsyncIO_NotifyOnReadability\<close> and
  \<open>AsyncIO_NotifyOnWritability\<close> make them, and a listener does not).
\<close>

definition registered :: "int \<Rightarrow> ((int \<times> int) \<rightharpoonup> kevent_s) \<Rightarrow> (int \<times> int) set" where
  "registered f kn = {k \<in> dom kn. snd k = f}"

definition oneshot_on :: "int \<Rightarrow> ((int \<times> int) \<rightharpoonup> kevent_s) \<Rightarrow> bool" where
  "oneshot_on f kn =
     (\<forall>i f' k. kn (i, f') = Some k \<longrightarrow>
        kfilter k = f' \<and> (f' = f \<longrightarrow> flags k AND EV_ONESHOT \<noteq> 0))"

text \<open>
  \<open>connection_handle g p\<close>: the pointer \<open>p\<close> is a live handle of a connection.
  Callbacks that return quietly: whatever they are called with, they return, leave the
  user pointers of the sockets alone and free no connection handle.
\<close>

definition connection_handle :: "globals \<Rightarrow> AsyncIO option \<Rightarrow> bool" where
  "connection_handle g p =
     (case p of
        None \<Rightarrow> False
      | Some h \<Rightarrow> (case mem g h of None \<Rightarrow> False | Some a \<Rightarrow> type a = kAIO_TYPE_CONNECTION))"

definition returns_quietly :: "user_code \<Rightarrow> bool" where
  "returns_quietly prog =
     (\<forall>cb ev anio d ud g. \<exists>g'. prog cb ev anio d ud g = Some (Inr g')
        \<and> sock_userdata g' = sock_userdata g
        \<and> (\<forall>p. connection_handle g p \<longrightarrow> connection_handle g' p))"

section \<open>Verified properties\<close>

subsection \<open>The redirect pump\<close>

text \<open>
  After a partial write the pump moves the unsent bytes to the start of the buffer and
  keeps both its state and the buffer's length.
\<close>

lemma memmove_front_unsent:
  "n \<le> length buf \<Longrightarrow> k < n \<Longrightarrow>
     take (n - k) (memmove_front buf k (n - k)) = drop k (take n buf)"
  by (simp add: memmove_front_def drop_take)

lemma memmove_front_length:
  "n \<le> length buf \<Longrightarrow> k < n \<Longrightarrow> length (memmove_front buf k (n - k)) = length buf"
  by (simp add: memmove_front_def)

lemma redirect_Pump_partial_write_step:
  assumes "state redir = REDIR_STATE_SENDING" and "k < num_in_buffer redir"
  shows "redirect_Pump (Ok k # rs) inp redir tr =
           redirect_Pump rs inp
             (redir\<lparr>buffer := memmove_front (buffer redir) k (num_in_buffer redir - k)\<rparr>)
             (tr @ [SysWrite (fd_out redir) (take (num_in_buffer redir) (buffer redir)),
                    Delivered (take k (buffer redir))])"
  using assms
  by (simp add: REDIR_STATE_SENDING_def REDIR_STATE_WAITING_FOR_DATA_def Let_def min_def)

text \<open>
  C1.  Under partial writes the bytes delivered to the output should be the bytes read,
  once each.  The partial-write branch compacts the buffer but leaves \<open>num_in_buffer\<close>
  at its old value, so the retry offers the remainder followed by stale bytes.  With the
  four input bytes \<open>abcd\<close>, a first write that accepts two bytes and a second write that
  accepts all it is offered, the output receives the six bytes \<open>abcdcd\<close>.
\<close>

theorem redirect_Pump_partial_write_duplicates:
  "map_option (\<lambda>(r, i, tr). delivered tr)
     (redirect_Pump [Ok 4, Ok 2, Ok 4, Fail EWOULDBLOCK] [97, 98, 99, 100]
        (new_redirect 3 4) [])
   = Some [97, 98, 99, 100, 99, 100]"
  by code_simp

text \<open>
  A read error other than would-block notifies the owner; \<open>done\<close> stays false, so the
  loop goes round again in the same state.
\<close>

lemma redirect_Pump_input_error_step:
  "e \<noteq> EWOULDBLOCK \<Longrightarrow> state redir = REDIR_STATE_WAITING_FOR_DATA \<Longrightarrow>
     redirect_Pump (Fail e # rs) inp redir tr =
       redirect_Pump rs inp redir
         (tr @ [SysRead (fd_in redir) (length (buffer redir)),
                OwnerEvent kAIO_REDIRECT_INPUT_ERROR_EVENT])"
  by simp

text \<open>
  C2.  After a read error other than would-block the pump should report the input error
  and stop.  It reports the error and then reads again: with a first read failing with
  \<open>EIO\<close> and a second one that would block, the pump makes two \<open>read\<close> calls before
  it returns.
\<close>

theorem redirect_Pump_reads_again_after_input_error:
  "map_option (\<lambda>(r, i, tr). tr)
     (redirect_Pump [Fail EIO, Fail EWOULDBLOCK] [97, 98, 99, 100] (new_redirect 3 4) [])
   = Some [SysRead 3 512, OwnerEvent kAIO_REDIRECT_INPUT_ERROR_EVENT, SysRead 3 512,
           NotifyOnReadability_in]"
  by code_simp


subsection \<open>The timer list\<close>

lemma and_then_simps [simp]:
  "and_then None f = None"
  "and_then (Some (Inl e)) f = Some (Inl e)"
  "and_then (Some (Inr x)) f = f x"
  by (simp_all add: and_then_def)

text \<open>Along a well-formed list the scan ends and computes \<open>earliest\<close>.\<close>

lemma next_timer_scan_path:
  "timer_path m p xs \<Longrightarrow> next_timer_scan m p nxt nft = Some (Inr (earliest m xs (nxt, nft)))"
proof (induction xs arbitrary: p nxt nft)
  case Nil
  then show ?case by (simp add: next_timer_scan.simps)
next
  case (Cons x xs)
  then obtain t where t: "p = Some x" "m x = Some t" "timer_path m (next_timer t) xs"
    by (auto split: option.splits)
  show ?case
    using Cons.IH [OF t(3)] t(1,2)
    by (subst next_timer_scan.simps) (simp add: deadline_def)
qed

lemma earliest_snd_le: "snd (earliest m xs (nxt, nft)) \<le> nft"
proof (induction xs arbitrary: nxt nft)
  case Nil then show ?case by simp
next
  case (Cons a xs)
  show ?case
  proof (cases "deadline m a < nft")
    case True
    have "snd (earliest m xs (Some a, deadline m a)) \<le> deadline m a" by (rule Cons.IH)
    also have "\<dots> \<le> nft" using True by simp
    finally show ?thesis using True by simp
  next
    case False
    then show ?thesis using Cons.IH [of nxt nft] by simp
  qed
qed

lemma earliest_lower: "x \<in> set xs \<Longrightarrow> snd (earliest m xs (nxt, nft)) \<le> deadline m x"
proof (induction xs arbitrary: nxt nft)
  case Nil then show ?case by simp
next
  case (Cons y ys)
  show ?case
  proof (cases "x = y")
    case True
    then show ?thesis
      using earliest_snd_le [of m ys "Some y" "deadline m y"] earliest_snd_le [of m ys nxt nft]
      by (auto simp: not_less intro: order_trans)
  next
    case False
    with Cons show ?thesis by auto
  qed
qed

lemma earliest_cases:
  "earliest m xs (nxt, nft) = (nxt, nft) \<and> (\<forall>x\<in>set xs. nft \<le> deadline m x)
   \<or> (\<exists>t\<in>set xs. earliest m xs (nxt, nft) = (Some t, deadline m t) \<and> deadline m t < nft)"
proof (induction xs arbitrary: nxt nft)
  case Nil then show ?case by simp
next
  case (Cons y ys)
  show ?case
  proof (cases "deadline m y < nft")
    case True
    from Cons.IH [of "Some y" "deadline m y"] True show ?thesis
      by (auto intro: less_trans)
  next
    case False
    from Cons.IH [of nxt nft] False show ?thesis
      by (auto simp: not_less)
  qed
qed

lemma earliest_winner:
  assumes "xs \<noteq> []" "\<forall>x\<in>set xs. deadline m x < nft"
  shows "\<exists>t\<in>set xs. earliest m xs (None, nft) = (Some t, deadline m t)
           \<and> (\<forall>x\<in>set xs. deadline m t \<le> deadline m x)"
proof -
  from assms obtain x where x: "x \<in> set xs" "deadline m x < nft" by (cases xs) auto
  from earliest_cases [of m xs None nft] x
  obtain t where t: "t \<in> set xs" "earliest m xs (None, nft) = (Some t, deadline m t)"
    by (auto simp: not_le)
  have "\<forall>x\<in>set xs. deadline m t \<le> deadline m x"
    using earliest_lower [of _ xs m None nft] t(2) by simp
  with t show ?thesis by blast
qed

text \<open>The \<open>struct timeval\<close>: microseconds of a 32-bit product, and the total it stands for.\<close>

lemma uint_rem_usec:
  fixes r :: "32 word"
  shows "uint ((r mod 1000) * 1000) = (uint r mod 1000) * 1000"
proof -
  have "uint ((r mod 1000) * 1000) = (uint r mod 1000 * 1000) mod 2 ^ 32"
    by (simp add: uint_word_ariths uint_mod)
  moreover have "uint r mod 1000 < 1000" "0 \<le> uint r mod 1000" by simp_all
  then have "0 \<le> uint r mod 1000 * 1000" "uint r mod 1000 * 1000 < 2 ^ 32" by simp_all
  ultimately show ?thesis by simp
qed

lemma remaining_timeval_past:
  "nft \<le> now \<Longrightarrow> remaining_timeval now nft = \<lparr>tv_sec = 0, tv_usec = 0\<rparr>"
  by (cases "nft = now") (auto simp: remaining_timeval_def)

lemma remaining_timeval_total:
  "tv_sec (remaining_timeval now nft) * 1000000 + tv_usec (remaining_timeval now nft)
     = 1000 * (if nft \<le> now then 0 else uint nft - uint now)"
proof (cases "nft \<le> now")
  case True
  then show ?thesis by (simp add: remaining_timeval_past)
next
  case False
  then have lt: "now < nft" by simp
  then have "uint now \<le> uint nft" by (simp add: word_less_def)
  then have sub: "uint (nft - now) = uint nft - uint now"
    by (simp only: uint_sub_lem)
  have "\<not> nft < now" using lt by (rule less_not_sym)
  then have rt: "remaining_timeval now nft =
      \<lparr>tv_sec = uint ((nft - now) div 1000), tv_usec = uint (((nft - now) mod 1000) * 1000)\<rparr>"
    by (simp add: remaining_timeval_def Let_def)
  have "(uint nft - uint now) div 1000 * 1000000 + (uint nft - uint now) mod 1000 * 1000
          = 1000 * (uint nft - uint now)"
    by presburger
  then show ?thesis using False
    by (simp add: rt uint_div uint_rem_usec sub)
qed

lemma remaining_timeval_range:
  "0 \<le> tv_sec (remaining_timeval now nft) \<and> 0 \<le> tv_usec (remaining_timeval now nft)
     \<and> tv_usec (remaining_timeval now nft) < 1000000"
  by (simp add: remaining_timeval_def Let_def uint_rem_usec)

text \<open>
  C7 (as amended).  On a well-formed, non-empty list of armed timers whose fire times
  are all below the scan's start value \<open>0xFFFFFFFF\<close>, \<open>AsyncIO_GetNextTimerFireTime\<close>
  returns a timer of the list whose fire time, compared as an unsigned 32-bit number, is
  least; the \<open>struct timeval\<close> it reports is the difference to \<open>now\<close> in whole
  milliseconds when the fire time lies ahead and zero when it does not, and is never
  negative.  In particular it is zero as soon as any armed fire time is at or before
  \<open>now\<close>.
\<close>

theorem AsyncIO_GetNextTimerFireTime_earliest:
  assumes "timer_path (mem g) (enabled_timers g) xs" and "xs \<noteq> []"
    and "\<forall>x\<in>set xs. deadline (mem g) x < 0xFFFFFFFF"
  shows "\<exists>t tv. t \<in> set xs
           \<and> AsyncIO_GetNextTimerFireTime now g = Some (Inr (Some (tv, t)))
           \<and> (\<forall>x\<in>set xs. deadline (mem g) t \<le> deadline (mem g) x)
           \<and> tv_sec tv * 1000000 + tv_usec tv
               = 1000 * (if deadline (mem g) t \<le> now then 0
                         else uint (deadline (mem g) t) - uint now)
           \<and> 0 \<le> tv_sec tv \<and> 0 \<le> tv_usec tv \<and> tv_usec tv < 1000000
           \<and> ((\<exists>x\<in>set xs. deadline (mem g) x \<le> now) \<longrightarrow> tv = \<lparr>tv_sec = 0, tv_usec = 0\<rparr>)"
proof -
  from earliest_winner [OF assms(2,3)]
  obtain t where t: "t \<in> set xs"
      "earliest (mem g) xs (None, 0xFFFFFFFF) = (Some t, deadline (mem g) t)"
      "\<forall>x\<in>set xs. deadline (mem g) t \<le> deadline (mem g) x"
    by blast
  let ?tv = "remaining_timeval now (deadline (mem g) t)"
  have run: "AsyncIO_GetNextTimerFireTime now g = Some (Inr (Some (?tv, t)))"
    by (simp add: AsyncIO_GetNextTimerFireTime_def next_timer_scan_path [OF assms(1)] t(2))
  have past: "(\<exists>x\<in>set xs. deadline (mem g) x \<le> now) \<longrightarrow> ?tv = \<lparr>tv_sec = 0, tv_usec = 0\<rparr>"
  proof
    assume "\<exists>x\<in>set xs. deadline (mem g) x \<le> now"
    then obtain x where "x \<in> set xs" "deadline (mem g) x \<le> now" by blast
    with t(3) have "deadline (mem g) t \<le> now" by (meson order_trans)
    then show "?tv = \<lparr>tv_sec = 0, tv_usec = 0\<rparr>" by (rule remaining_timeval_past)
  qed
  show ?thesis
    using t(1) run t(3) remaining_timeval_total [of now "deadline (mem g) t"]
      remaining_timeval_range [of now "deadline (mem g) t"] past
    by blast
qed

text \<open>
  The theorem at the timers armed with 50, 10 and 30 milliseconds at the clock reading
  100, asked at the same reading.
\<close>

theorem AsyncIO_GetNextTimerFireTime_earliest_witness:
  "timer_path (mem (three_armed 100)) (enabled_timers (three_armed 100)) [3, 2, 1]
   \<and> deadline (mem (three_armed 100)) 3 < 0xFFFFFFFF
   \<and> deadline (mem (three_armed 100)) 2 < 0xFFFFFFFF
   \<and> deadline (mem (three_armed 100)) 1 < 0xFFFFFFFF
   \<and> (\<exists>t tv. t \<in> set [3, 2, 1]
         \<and> AsyncIO_GetNextTimerFireTime 100 (three_armed 100) = Some (Inr (Some (tv, t)))
         \<and> (\<forall>x\<in>set [3, 2, 1].
               deadline (mem (three_armed 100)) t \<le> deadline (mem (three_armed 100)) x)
         \<and> tv_sec tv * 1000000 + tv_usec tv
             = 1000 * (if deadline (mem (three_armed 100)) t \<le> 100 then 0
                       else uint (deadline (mem (three_armed 100)) t) - uint (100 :: 32 word))
         \<and> 0 \<le> tv_sec tv \<and> 0 \<le> tv_usec tv \<and> tv_usec tv < 1000000
         \<and> ((\<exists>x\<in>set [3, 2, 1]. deadline (mem (three_armed 100)) x \<le> 100)
               \<longrightarrow> tv = \<lparr>tv_sec = 0, tv_usec = 0\<rparr>))"
proof -
  have p: "timer_path (mem (three_armed 100)) (enabled_timers (three_armed 100)) [3, 2, 1]"
    by code_simp
  have b: "\<forall>x\<in>set [3, 2, 1]. deadline (mem (three_armed 100)) x < 0xFFFFFFFF"
    by code_simp
  have n: "[3, 2, 1] \<noteq> ([] :: nat list)" by simp
  from b have b': "deadline (mem (three_armed 100)) 3 < 0xFFFFFFFF"
      "deadline (mem (three_armed 100)) 2 < 0xFFFFFFFF"
      "deadline (mem (three_armed 100)) 1 < 0xFFFFFFFF"
    by simp_all
  from AsyncIO_GetNextTimerFireTime_earliest [OF p n b, of 100] p b' show ?thesis
    by blast
qed

text \<open>What the function returns there: the timer armed with 10 milliseconds, 10 ms away.\<close>

lemma AsyncIO_GetNextTimerFireTime_three_armed:
  "AsyncIO_GetNextTimerFireTime 100 (three_armed 100)
     = Some (Inr (Some (\<lparr>tv_sec = 0, tv_usec = 10000\<rparr>, 2)))"
  by code_simp

text \<open>
  C7 as stated fails when a fire time wraps around: armed at the clock reading
  \<open>0xFFFFFFEC\<close>, the timers with 50 and 30 milliseconds get the fire times \<open>0x1E\<close>
  and \<open>0x0A\<close>, and the function returns the 30 ms timer with nothing remaining, not
  the 10 ms timer with 10 ms.
\<close>

theorem AsyncIO_GetNextTimerFireTime_wrap_counterexample:
  "AsyncIO_GetNextTimerFireTime 0xFFFFFFEC (three_armed 0xFFFFFFEC)
     = Some (Inr (Some (\<lparr>tv_sec = 0, tv_usec = 0\<rparr>, 3)))"
  by code_simp


text \<open>A timer that is not on a well-formed list is not found by the unlinking loop.\<close>

lemma disable_scan_absent:
  "timer_path m (Some h) (h # xs) \<Longrightarrow> t \<notin> set xs \<Longrightarrow> disable_scan m h (Some t) = Some (Inr None)"
proof (induction xs arbitrary: h)
  case Nil
  then show ?case
    by (subst disable_scan.simps) (auto split: option.splits)
next
  case (Cons y ys)
  from Cons.prems obtain a where a: "m h = Some a" "next_timer a = Some y"
      "timer_path m (Some y) (y # ys)"
    by (auto split: option.splits)
  from Cons.prems have "y \<noteq> t" "t \<notin> set ys" by auto
  with Cons.IH [OF a(3)] a(1,2) show ?case
    by (subst disable_scan.simps) simp
qed

text \<open>
  C8 (as amended).  In the \<open>select\<close> build, when the list of enabled timers is
  well-formed (from \<open>enabled_timers\<close> the \<open>next_timer\<close> links lead through live
  handles to \<open>NULL\<close>), \<open>AsyncIO_DisableTimer\<close> on a timer that is not on the list
  is not a successful no-op: the call fails and leaves the list and every handle as
  they were; only the cached \<open>aio_next_enabled_timer\<close> is cleared if it named
  that timer.  In the kqueue build, with the kernel queue open,
  the kernel's \<open>ENOENT\<close> is accepted: on a timer that is not registered the call
  returns 0 and changes nothing.
\<close>

theorem AsyncIO_DisableTimer_absent:
  "(timer_path (mem g) (enabled_timers g) xs \<and> t \<notin> set xs \<longrightarrow>
      AsyncIO_DisableTimer_select (Some t) g
        = Some (Inr (- 1, if aio_next_enabled_timer g = Some t
                          then g\<lparr>aio_next_enabled_timer := None\<rparr> else g)))
   \<and> (0 \<le> anioKQ g \<and> knotes g (ptr_ident (Some t), EVFILT_TIMER) = None \<longrightarrow>
      AsyncIO_DisableTimer_kqueue (Some t) g = (0, g))"
proof (intro conjI impI)
  assume h: "timer_path (mem g) (enabled_timers g) xs \<and> t \<notin> set xs"
  show "AsyncIO_DisableTimer_select (Some t) g
        = Some (Inr (- 1, if aio_next_enabled_timer g = Some t
                          then g\<lparr>aio_next_enabled_timer := None\<rparr> else g))"
  proof (cases xs)
    case Nil
    with h show ?thesis
      by (cases "aio_next_enabled_timer g = Some t")
         (simp_all add: AsyncIO_DisableTimer_select_def Let_def)
  next
    case (Cons y ys)
    with h have p: "timer_path (mem g) (Some y) (y # ys)" and e: "enabled_timers g = Some y"
      and n: "t \<notin> set ys" "y \<noteq> t"
      by auto
    from disable_scan_absent [OF p n(1)] e n(2) show ?thesis
      by (cases "aio_next_enabled_timer g = Some t")
         (simp_all add: AsyncIO_DisableTimer_select_def Let_def)
  qed
next
  assume "0 \<le> anioKQ g \<and> knotes g (ptr_ident (Some t), EVFILT_TIMER) = None"
  then show "AsyncIO_DisableTimer_kqueue (Some t) g = (0, g)"
    by (simp add: AsyncIO_DisableTimer_kqueue_def kevent_change_def EV_DELETE_def)
qed

text \<open>
  Both halves at concrete states: with the timers 3 and 1 on the list, the timer 2 is
  allocated and not on it; in the kqueue build the timer 2 is not registered with the
  kernel.
\<close>

theorem AsyncIO_DisableTimer_absent_witness:
  "timer_path (mem two_armed) (enabled_timers two_armed) [3, 1] \<and> 2 \<notin> set [3, 1 :: nat]
   \<and> map_option type (mem two_armed 2) = Some kAIO_TYPE_TIMER
   \<and> AsyncIO_DisableTimer_select (Some 2) two_armed = Some (Inr (- 1, two_armed))
   \<and> 0 \<le> anioKQ three_timers \<and> knotes three_timers (ptr_ident (Some 2), EVFILT_TIMER) = None
   \<and> AsyncIO_DisableTimer_kqueue (Some 2) three_timers = (0, three_timers)"
proof -
  have p: "timer_path (mem two_armed) (enabled_timers two_armed) [3, 1]"
    by code_simp
  have l: "map_option type (mem two_armed 2) = Some kAIO_TYPE_TIMER" by code_simp
  have a: "aio_next_enabled_timer two_armed \<noteq> Some 2" by code_simp
  have k: "0 \<le> anioKQ three_timers" "knotes three_timers (ptr_ident (Some 2), EVFILT_TIMER) = None"
    by code_simp+
  from AsyncIO_DisableTimer_absent [of two_armed "[3, 1]" 2] AsyncIO_DisableTimer_absent [of three_timers "[]" 2] p l a k
  show ?thesis by simp
qed

text \<open>
  C8 as stated fails in the kqueue build: disabling the unarmed timer 2 returns 0 and
  leaves the state as it was, which is a successful no-op.
\<close>

theorem AsyncIO_DisableTimer_kqueue_absent_counterexample: "AsyncIO_DisableTimer_kqueue (Some 2) three_timers = (0, three_timers)"
  by (simp add: AsyncIO_DisableTimer_kqueue_def kevent_change_def EV_DELETE_def three_timers_def
      AsyncIO_NewTimer_def initial_globals_def)

text \<open>
  A handle whose \<open>next_timer\<close> points to itself: a scan that reaches it never returns.
\<close>

lemma next_timer_scan_never_returns:
  assumes loop: "m t = Some a" "next_timer a = Some t"
    and ret: "next_timer_scan m' tio nxt nft = Some y"
  shows "m' = m \<longrightarrow> tio \<noteq> Some t"
proof (rule next_timer_scan.raw_induct
         [where P = "\<lambda>m' tio nxt nft y. m' = m \<longrightarrow> tio \<noteq> Some t", OF _ ret])
  fix f m' tio nxt nft y
  assume IH: "\<And>m' tio nxt nft y. f m' tio nxt nft = Some y \<Longrightarrow> m' = m \<longrightarrow> tio \<noteq> Some t"
    and body: "(case tio of
        None \<Rightarrow> Some (Inr (nxt, nft))
      | Some p \<Rightarrow>
          (case m' p of
             None \<Rightarrow> Some (Inl BadPointer)
           | Some t \<Rightarrow>
               if next_fire_time t < nft
               then f m' (next_timer t) (Some p) (next_fire_time t)
               else f m' (next_timer t) nxt nft)) = Some y"
  show "m' = m \<longrightarrow> tio \<noteq> Some t"
  proof (intro impI notI)
    assume "m' = m" "tio = Some t"
    with body loop have "f m (Some t) (Some t) (next_fire_time a) = Some y
        \<or> f m (Some t) nxt nft = Some y"
      by (auto split: if_splits)
    with IH show False by blast
  qed
qed

lemma next_timer_scan_self_loop:
  assumes "m t = Some a" "next_timer a = Some t"
  shows "next_timer_scan m (Some t) nxt nft = None"
proof (cases "next_timer_scan m (Some t) nxt nft")
  case None then show ?thesis .
next
  case (Some y)
  from next_timer_scan_never_returns [of m t a m "Some t" nxt nft y] assms Some
  show ?thesis by simp
qed

lemma disable_scan_never_returns:
  assumes loop: "m t = Some a" "next_timer a = Some t" "timer \<noteq> Some t"
    and ret: "disable_scan m' tio timer' = Some y"
  shows "m' = m \<and> timer' = timer \<longrightarrow> tio \<noteq> t"
proof (rule disable_scan.raw_induct
         [where P = "\<lambda>m' tio timer' y. m' = m \<and> timer' = timer \<longrightarrow> tio \<noteq> t", OF _ ret])
  fix f m' tio timer' y
  assume IH: "\<And>m' tio timer' y. f m' tio timer' = Some y \<Longrightarrow> m' = m \<and> timer' = timer \<longrightarrow> tio \<noteq> t"
    and body: "(case m' tio of
        None \<Rightarrow> Some (Inl BadPointer)
      | Some t \<Rightarrow>
          if next_timer t = timer' then
            (case timer' of
               None \<Rightarrow> Some (Inl BadPointer)
             | Some tp \<Rightarrow>
                 (case m' tp of
                    None \<Rightarrow> Some (Inl BadPointer)
                  | Some tt \<Rightarrow> Some (Inr (Some (m'(tio \<mapsto> t\<lparr>next_timer := next_timer tt\<rparr>))))))
          else
            (case next_timer t of
               None \<Rightarrow> Some (Inr None)
             | Some n \<Rightarrow> f m' n timer')) = Some y"
  show "m' = m \<and> timer' = timer \<longrightarrow> tio \<noteq> t"
  proof (intro impI notI)
    assume "m' = m \<and> timer' = timer" "tio = t"
    with body loop have "f m t timer = Some y"
      by (auto split: if_splits)
    with IH show False by blast
  qed
qed

lemma disable_scan_self_loop:
  assumes "m t = Some a" "next_timer a = Some t" "timer \<noteq> Some t"
  shows "disable_scan m t timer = None"
proof (cases "disable_scan m t timer")
  case None then show ?thesis .
next
  case (Some y)
  from disable_scan_never_returns [of m t a timer m t timer y] assms Some
  show ?thesis by simp
qed

text \<open>
  C10.  In the \<open>select\<close> build \<open>AsyncIO_EnableTimer\<close> puts the timer at the head
  of the list and points its \<open>next_timer\<close> at the old head, whatever the list held;
  no other handle is touched, so a link that led to the timer still does.  When the timer
  was the head already, its \<open>next_timer\<close> now points to itself, and from then on
  \<open>AsyncIO_GetNextTimerFireTime\<close> never returns, nor does \<open>AsyncIO_DisableTimer\<close>
  on any other timer (the only calls that enter its scan).
\<close>

theorem AsyncIO_EnableTimer_select_twice_loops:
  assumes "mem g t = Some a"
  shows "\<exists>g'. AsyncIO_EnableTimer_select now (Some t) ms g = Inr (0, g')
           \<and> enabled_timers g' = Some t
           \<and> map_option next_timer (mem g' t) = Some (enabled_timers g)
           \<and> (\<forall>p. p \<noteq> t \<longrightarrow> mem g' p = mem g p)
           \<and> (enabled_timers g = Some t \<longrightarrow>
                AsyncIO_GetNextTimerFireTime now' g' = None
                \<and> (\<forall>timer. timer \<noteq> Some t \<longrightarrow> AsyncIO_DisableTimer_select timer g' = None))"
proof -
  let ?a' = "a\<lparr>next_fire_time := now + ms, next_timer := enabled_timers g\<rparr>"
  let ?g' = "g\<lparr>mem := (mem g)(t \<mapsto> ?a'), enabled_timers := Some t\<rparr>"
  have en: "AsyncIO_EnableTimer_select now (Some t) ms g = Inr (0, ?g')"
    using assms by (simp add: AsyncIO_EnableTimer_select_def)
  have loop: "enabled_timers g = Some t \<longrightarrow>
                AsyncIO_GetNextTimerFireTime now' ?g' = None
                \<and> (\<forall>timer. timer \<noteq> Some t \<longrightarrow> AsyncIO_DisableTimer_select timer ?g' = None)"
  proof (intro impI conjI allI)
    assume h: "enabled_timers g = Some t"
    then have l: "mem ?g' t = Some ?a'" "next_timer ?a' = Some t" by simp_all
    show "AsyncIO_GetNextTimerFireTime now' ?g' = None"
      using next_timer_scan_self_loop [of "mem ?g'" t ?a' None "0xFFFFFFFF"] l
      by (simp add: AsyncIO_GetNextTimerFireTime_def)
    fix timer assume ne: "timer \<noteq> Some t"
    have d: "disable_scan (mem ?g') t timer = None"
      using disable_scan_self_loop [of "mem ?g'" t ?a' timer] l ne by blast
    show "AsyncIO_DisableTimer_select timer ?g' = None"
    proof (cases "timer = aio_next_enabled_timer g")
      case True
      with d ne show ?thesis by (auto simp: AsyncIO_DisableTimer_select_def Let_def)
    next
      case False
      with d ne show ?thesis by (auto simp: AsyncIO_DisableTimer_select_def Let_def)
    qed
  qed
  show ?thesis
    using en loop by (intro exI [of _ ?g']) simp
qed

text \<open>The theorem at timer 1, armed at the clock reading 100 and again at 130.\<close>

theorem AsyncIO_EnableTimer_select_twice_loops_witness:
  "mem armed_once 1 \<noteq> None \<and> enabled_timers armed_once = Some 1
   \<and> (\<exists>g'. AsyncIO_EnableTimer_select 130 (Some 1) 50 armed_once = Inr (0, g')
         \<and> enabled_timers g' = Some 1
         \<and> map_option next_timer (mem g' 1) = Some (Some 1)
         \<and> AsyncIO_GetNextTimerFireTime 140 g' = None
         \<and> AsyncIO_DisableTimer_select (Some 2) g' = None)"
proof -
  have m: "mem armed_once 1 = Some \<lparr>fd = - 1, type = kAIO_TYPE_TIMER, callback = 0, userdata = 0,
      notifyOnRead = False, notifyOnWrite = False, next_fire_time = 150, next_timer = None\<rparr>"
    by code_simp
  have e: "enabled_timers armed_once = Some 1" by code_simp
  from AsyncIO_EnableTimer_select_twice_loops [OF m, of 130 50 140] e m show ?thesis by auto
qed



subsection \<open>Dispatching in the \<open>select\<close> build\<close>

lemma and_then_Inr:
  "and_then r f = Some (Inr y) \<Longrightarrow> \<exists>x. r = Some (Inr x) \<and> f x = Some (Inr y)"
  by (auto simp: and_then_def split: option.splits sum.splits)

lemma and_then_InrE:
  assumes "and_then r f = Some (Inr y)"
  obtains x where "r = Some (Inr x)" and "f x = Some (Inr y)"
  using assms by (auto simp: and_then_def split: option.splits sum.splits)

lemma no_close_added_refl: "no_close_added tr tr"
  by (simp add: no_close_added_def)

lemma no_close_added_trans:
  "no_close_added a b \<Longrightarrow> no_close_added b c \<Longrightarrow> no_close_added a c"
proof -
  assume ab: "no_close_added a b" and bc: "no_close_added b c"
  from ab obtain n where n: "b = a @ n" "list_all (\<lambda>e. fst e \<noteq> kAIO_CONNECTION_CLOSED) n"
    unfolding no_close_added_def by (metis append_take_drop_id)
  from bc obtain k where k: "c = b @ k" "list_all (\<lambda>e. fst e \<noteq> kAIO_CONNECTION_CLOSED) k"
    unfolding no_close_added_def by (metis append_take_drop_id)
  from n k show ?thesis by (simp add: no_close_added_def)
qed

lemma no_close_added_step:
  "k \<noteq> kAIO_CONNECTION_CLOSED \<Longrightarrow> no_close_added tr (tr @ [(k, a, d)])"
  by (simp add: no_close_added_def)

lemma invoke_trace:
  "invoke prog k anio d st = Some (Inr st') \<Longrightarrow> snd st' = snd st @ [(k, anio, d)]"
  by (auto simp: invoke_def dest!: and_then_Inr split: option.splits)

lemma invoke_no_close:
  "k \<noteq> kAIO_CONNECTION_CLOSED \<Longrightarrow> invoke prog k anio d st = Some (Inr st')
     \<Longrightarrow> no_close_added (snd st) (snd st')"
  by (auto dest!: invoke_trace simp: no_close_added_step)

lemma select_read_event_no_close:
  assumes "select_read_event prog i st = Some (Inr st')"
  shows "no_close_added (snd st) (snd st')"
  using assms
  by (auto simp: select_read_event_def Let_def kAIO_NEW_CONNECTION_def kAIO_DATA_AVAILABLE_def
        kAIO_CONNECTION_CLOSED_def no_close_added_refl
      dest!: and_then_Inr invoke_no_close [rotated] split: option.splits if_splits)

lemma select_write_event_no_close:
  assumes "select_write_event prog i st = Some (Inr st')"
  shows "no_close_added (snd st) (snd st')"
  using assms
  by (auto simp: select_write_event_def Let_def kAIO_READY_FOR_WRITE_def
        kAIO_CONNECTION_CLOSED_def no_close_added_refl
      dest!: and_then_Inr invoke_no_close [rotated] split: option.splits if_splits)

lemma select_timeout_event_no_close:
  assumes "select_timeout_event prog st = Some (Inr st')"
  shows "no_close_added (snd st) (snd st')"
  using assms
  by (auto simp: select_timeout_event_def Let_def kAIO_TIMER_FIRED_def
        kAIO_CONNECTION_CLOSED_def no_close_added_refl
      dest!: and_then_Inr invoke_no_close [rotated] split: option.splits if_splits)

lemma select_fd_loop_no_close:
  "select_fd_loop prog rd wr is n st = Some (Inr st') \<Longrightarrow> no_close_added (snd st) (snd st')"
proof (induction "is" arbitrary: n st)
  case Nil
  then show ?case by (simp add: no_close_added_refl)
next
  case (Cons i "is")
  show ?case
  proof (cases "n = 0")
    case True
    with Cons.prems show ?thesis by (simp add: no_close_added_refl)
  next
    case False
    with Cons.prems obtain st1 st2 where
      s1: "(if i \<in> rd then select_read_event prog i st else Some (Inr st)) = Some (Inr st1)"
      and s2: "(if i \<in> wr then select_write_event prog i st1 else Some (Inr st1)) = Some (Inr st2)"
      and s3: "select_fd_loop prog rd wr is
                 (n - (if i \<in> rd then 1 else 0) - (if i \<in> wr then 1 else 0)) st2 = Some (Inr st')"
      by (auto dest!: and_then_Inr)
    from s1 have a: "no_close_added (snd st) (snd st1)"
      by (auto split: if_splits simp: no_close_added_refl dest: select_read_event_no_close)
    from s2 have b: "no_close_added (snd st1) (snd st2)"
      by (auto split: if_splits simp: no_close_added_refl dest: select_write_event_no_close)
    from Cons.IH [OF s3] have c: "no_close_added (snd st2) (snd st')" .
    from a b have "no_close_added (snd st) (snd st2)" by (rule no_close_added_trans)
    from this c show ?thesis by (rule no_close_added_trans)
  qed
qed

lemma ProcessEvents_select_no_close:
  "AsyncIO_ProcessEvents_select prog ctx st = Some (Inr (r, st')) \<Longrightarrow>
     no_close_added (snd st) (snd st')"
  by (auto simp: AsyncIO_ProcessEvents_select_def no_close_added_refl
      dest!: and_then_Inr select_timeout_event_no_close select_fd_loop_no_close
      split: if_splits)

lemma Run_select_turn_no_close:
  assumes "Run_select_turn maxnfds prog now sel st = Some (Inr (going, st'))"
  shows "no_close_added (snd st) (snd st')"
proof -
  obtain mx rr w where b: "build_fd_sets maxnfds (fst st) = (mx, rr, w)"
    by (cases "build_fd_sets maxnfds (fst st)")
  from assms show ?thesis
    unfolding Run_select_turn_def b Let_def prod.case
    by (auto simp: no_close_added_refl
        dest!: and_then_Inr select_timeout_event_no_close select_fd_loop_no_close
        split: if_splits)
qed

lemma Run_select_no_close:
  "AsyncIO_Run_select maxnfds prog keep turns st = Some (Inr (r, g', tr')) \<Longrightarrow>
     no_close_added (snd st) tr'"
proof (induction turns arbitrary: st)
  case Nil
  then show ?case by simp
next
  case (Cons t turns)
  obtain now sel where t: "t = (now, sel)" by (cases t)
  from Cons.prems [unfolded t] obtain going st1 where
    turn: "Run_select_turn maxnfds prog now sel st = Some (Inr (going, st1))"
    and rest: "(if going \<and> keep then AsyncIO_Run_select maxnfds prog keep turns st1
          else Some (Inr (- 1, (fst st1)\<lparr>anioInProgress := None\<rparr>, snd st1)))
         = Some (Inr (r, g', tr'))"
    by (simp split: option.splits sum.splits prod.splits)
  from Run_select_turn_no_close [OF turn] have a: "no_close_added (snd st) (snd st1)" .
  have c: "no_close_added (snd st1) tr'"
  proof (cases "going \<and> keep")
    case True
    with rest have "AsyncIO_Run_select maxnfds prog keep turns st1 = Some (Inr (r, g', tr'))"
      by simp
    then show ?thesis by (rule Cons.IH)
  next
    case False
    with rest show ?thesis by (auto simp: no_close_added_refl)
  qed
  from a c show ?case by (rule no_close_added_trans)
qed

lemma select_cycles_ConsE:
  assumes "select_cycles maxnfds prog ((now, timeout, sel) # cs) st = Some (Inr st')"
  obtains r ctx to g1 r1 st1 where
    "AsyncIO_WaitForEvents_select maxnfds now timeout sel (fst st) = Some (Inr (r, ctx, to, g1))"
    "AsyncIO_ProcessEvents_select prog ctx (g1, snd st) = Some (Inr (r1, st1))"
    "select_cycles maxnfds prog cs st1 = Some (Inr st')"
  using assms
  by (simp split: option.splits sum.splits prod.splits)

lemma select_cycles_no_close:
  "select_cycles maxnfds prog cs st = Some (Inr st') \<Longrightarrow> no_close_added (snd st) (snd st')"
proof (induction cs arbitrary: st)
  case Nil
  then show ?case by (simp add: no_close_added_refl)
next
  case (Cons c cs)
  obtain now timeout sel where c: "c = (now, timeout, sel)" by (cases c)
  from Cons.prems [unfolded c] obtain r ctx to g1 r1 st1 where
    w: "AsyncIO_WaitForEvents_select maxnfds now timeout sel (fst st)
          = Some (Inr (r, ctx, to, g1))"
    and p: "AsyncIO_ProcessEvents_select prog ctx (g1, snd st) = Some (Inr (r1, st1))"
    and n: "select_cycles maxnfds prog cs st1 = Some (Inr st')"
    by (rule select_cycles_ConsE)
  from ProcessEvents_select_no_close [OF p] have a: "no_close_added (snd st) (snd st1)"
    by simp
  from a Cons.IH [OF n] show ?case by (rule no_close_added_trans)
qed

text \<open>
  C9.  In the \<open>select\<close> build no callback is ever made for
  \<open>kAIO_CONNECTION_CLOSED\<close>: whatever the registered callbacks do, whatever
  \<open>select\<close> answers and however many cycles run, the callbacks made by one
  \<open>AsyncIO_ProcessEvents\<close>, by any sequence of wait and process cycles, and by
  \<open>AsyncIO_Run\<close> are all for other events.
\<close>

theorem select_never_delivers_connection_closed:
  "(AsyncIO_ProcessEvents_select prog ctx (g, tr) = Some (Inr (r1, g1, tr1))
      \<longrightarrow> no_close_added tr tr1)
   \<and> (select_cycles maxnfds prog cs (g, tr) = Some (Inr (g2, tr2))
      \<longrightarrow> no_close_added tr tr2)
   \<and> (AsyncIO_Run_select maxnfds prog keepRunning turns (g, tr) = Some (Inr (r3, g3, tr3))
      \<longrightarrow> no_close_added tr tr3)"
  using ProcessEvents_select_no_close [of prog ctx "(g, tr)" r1 "(g1, tr1)"]
    select_cycles_no_close [of maxnfds prog cs "(g, tr)" "(g2, tr2)"]
    Run_select_no_close [of maxnfds prog keepRunning turns "(g, tr)" r3 g3 tr3]
  by simp

text \<open>
  The theorem at a connection on descriptor 5 that is armed for reading and writing and
  found ready for both: one run of the loop makes the two callbacks
  \<open>kAIO_DATA_AVAILABLE\<close> and \<open>kAIO_READY_FOR_WRITE\<close>.
\<close>

theorem select_never_delivers_connection_closed_witness:
  "map_option (map_sum id (\<lambda>(r, g, tr). (r, tr)))
     (AsyncIO_Run_select 8 idle False
        [(100, \<lparr>sel_ret = 2, sel_readable = {5}, sel_writable = {5}\<rparr>)] (armed_both_select, []))
     = Some (Inr (- 1, [(kAIO_DATA_AVAILABLE, 1, 5), (kAIO_READY_FOR_WRITE, 1, 5)]))
   \<and> no_close_added [] [(kAIO_DATA_AVAILABLE, 1, 5), (kAIO_READY_FOR_WRITE, 1, 5)]"
proof -
  define R where "R = AsyncIO_Run_select 8 idle False
        [(100, \<lparr>sel_ret = 2, sel_readable = {5}, sel_writable = {5}\<rparr>)] (armed_both_select, [])"
  have ev: "map_option (map_sum id (\<lambda>(r, g, tr). (r, tr))) R
     = Some (Inr (- 1, [(kAIO_DATA_AVAILABLE, 1, 5), (kAIO_READY_FOR_WRITE, 1, 5)]))"
    unfolding R_def by code_simp
  then obtain g3 where run:
    "R = Some (Inr (- 1, g3, [(kAIO_DATA_AVAILABLE, 1, 5), (kAIO_READY_FOR_WRITE, 1, 5)]))"
    by (cases R) (auto simp: map_sum_def split: sum.splits)
  from select_never_delivers_connection_closed
    [of idle _ armed_both_select "[]" _ _ _ 8 "[]" _ _ False
        "[(100, \<lparr>sel_ret = 2, sel_readable = {5}, sel_writable = {5}\<rparr>)]"
        "- 1" g3 "[(kAIO_DATA_AVAILABLE, 1, 5), (kAIO_READY_FOR_WRITE, 1, 5)]"] run ev
  show ?thesis unfolding R_def by simp
qed



subsection \<open>Constructors\<close>

lemma or_and_absorb_int: "((fl :: int) OR c) AND c = c"
  by (auto simp: bit_eq_iff bit_and_iff bit_or_iff)

lemma constructors_fail:
  assumes "fst setfl_res \<noteq> 0" "snd setfl_res \<noteq> ENOTTY"
  shows "AsyncIO_NewConnectionListener_kqueue c setfl_res d cb ud g = (None, g)"
    and "AsyncIO_NewConnectionListener_select c setfl_res d cb ud g = (None, g)"
    and "AsyncIO_NewConnection_kqueue c setfl_res d cb ud g = (None, g)"
    and "AsyncIO_NewConnection_select c setfl_res d cb ud g = (None, g)"
  using assms
  by (simp_all add: AsyncIO_NewConnectionListener_kqueue_def
      AsyncIO_NewConnectionListener_select_def AsyncIO_NewConnection_kqueue_def
      AsyncIO_NewConnection_select_def fcntl_SETFL_def Let_def split: option.splits)

lemma kevent_change_fd_status_snd: "fd_status (snd (kevent_change ke g)) = fd_status g"
  by (simp add: kevent_change_def)

lemma fcntl_SETFL_dom:
  "fcntl_GETFL g d \<noteq> - 1 \<Longrightarrow> dom (fd_status (fcntl_SETFL res d fl g)) = dom (fd_status g)"
  by (auto simp: fcntl_SETFL_def fcntl_GETFL_def split: option.splits)

lemma constructors_keep_descriptors:
  assumes "C \<in> set descriptor_constructors"
  shows "dom (fd_status (snd (C c setfl_res d cb ud g))) = dom (fd_status g)"
proof -
  have s: "fcntl_GETFL g d \<noteq> - 1 \<Longrightarrow>
      dom (fd_status (fcntl_SETFL setfl_res d (fcntl_GETFL g d OR O_NONBLOCK) g)) = dom (fd_status g)"
    by (rule fcntl_SETFL_dom)
  from assms consider "C = AsyncIO_NewConnectionListener_kqueue"
    | "C = AsyncIO_NewConnectionListener_select" | "C = AsyncIO_NewConnection_kqueue"
    | "C = AsyncIO_NewConnection_select"
    by (auto simp: descriptor_constructors_def)
  then show ?thesis
  proof cases
    case 1
    then show ?thesis using s
      by (simp add: AsyncIO_NewConnectionListener_kqueue_def Let_def case_prod_beta
          kevent_change_fd_status_snd split: option.splits)
  next
    case 2
    then show ?thesis using s
      by (simp add: AsyncIO_NewConnectionListener_select_def Let_def
          lwip_socket_set_userdata_def split: option.splits)
  next
    case 3
    then show ?thesis using s
      by (simp add: AsyncIO_NewConnection_kqueue_def Let_def split: option.splits)
  next
    case 4
    then show ?thesis using s
      by (simp add: AsyncIO_NewConnection_select_def Let_def
          lwip_socket_set_userdata_def split: option.splits)
  qed
qed

lemma constructors_unavailable:
  assumes "c = None \<or> fd_status g d = None \<or> fd_status g d = Some (- 1)"
  shows "AsyncIO_NewConnectionListener_kqueue c setfl_res d cb ud g = (None, g)"
    and "AsyncIO_NewConnectionListener_select c setfl_res d cb ud g = (None, g)"
    and "AsyncIO_NewConnection_kqueue c setfl_res d cb ud g = (None, g)"
    and "AsyncIO_NewConnection_select c setfl_res d cb ud g = (None, g)"
  using assms
  by (auto simp: AsyncIO_NewConnectionListener_kqueue_def
      AsyncIO_NewConnectionListener_select_def AsyncIO_NewConnection_kqueue_def
      AsyncIO_NewConnection_select_def fcntl_GETFL_def Let_def split: option.splits)

lemma NewConnection_succeeds:
  assumes "fd_status g d = Some fl" "fl \<noteq> - 1" "fst setfl_res = 0"
  shows "\<exists>g'. AsyncIO_NewConnection_kqueue (Some p) setfl_res d cb ud g = (Some p, g')
           \<and> fd_status g' = (fd_status g)(d \<mapsto> fl OR O_NONBLOCK)
           \<and> mem g' = (mem g)(p \<mapsto> zeroed\<lparr>fd := d, type := kAIO_TYPE_CONNECTION,
                                           callback := cb, userdata := ud\<rparr>)"
    and "\<exists>g'. AsyncIO_NewConnection_select (Some p) setfl_res d cb ud g = (Some p, g')
           \<and> fd_status g' = (fd_status g)(d \<mapsto> fl OR O_NONBLOCK)
           \<and> mem g' = (mem g)(p \<mapsto> zeroed\<lparr>fd := d, type := kAIO_TYPE_CONNECTION,
                                           callback := cb, userdata := ud\<rparr>)"
  using assms
  by (simp_all add: AsyncIO_NewConnection_kqueue_def AsyncIO_NewConnection_select_def
      fcntl_GETFL_def fcntl_SETFL_def lwip_socket_set_userdata_def Let_def)

lemma NewConnectionListener_succeeds:
  assumes "fd_status g d = Some fl" "fl \<noteq> - 1" "fst setfl_res = 0"
  shows "\<exists>g'. AsyncIO_NewConnectionListener_select (Some p) setfl_res d cb ud g = (Some p, g')
           \<and> fd_status g' = (fd_status g)(d \<mapsto> fl OR O_NONBLOCK)
           \<and> mem g' = (mem g)(p \<mapsto> zeroed\<lparr>fd := d, type := kAIO_TYPE_LISTENER,
                                           callback := cb, userdata := ud\<rparr>)
           \<and> d \<in> anioReadSet g'"
    and "0 \<le> anioKQ g \<Longrightarrow>
         \<exists>g'. AsyncIO_NewConnectionListener_kqueue (Some p) setfl_res d cb ud g = (Some p, g')
           \<and> fd_status g' = (fd_status g)(d \<mapsto> fl OR O_NONBLOCK)
           \<and> mem g' = (mem g)(p \<mapsto> zeroed\<lparr>fd := d, type := kAIO_TYPE_LISTENER,
                                           callback := cb, userdata := ud\<rparr>)
           \<and> knotes g' (d, EVFILT_READ)
               = Some \<lparr>ident = d, kfilter = EVFILT_READ, flags = EV_ADD, udata = Some p\<rparr>"
    and "anioKQ g < 0 \<Longrightarrow>
         \<exists>g'. AsyncIO_NewConnectionListener_kqueue (Some p) setfl_res d cb ud g = (None, g')
           \<and> fd_status g' = (fd_status g)(d \<mapsto> fl OR O_NONBLOCK) \<and> mem g' = mem g"
  using assms
  by (simp_all add: AsyncIO_NewConnectionListener_kqueue_def
      AsyncIO_NewConnectionListener_select_def kevent_change_def EV_ADD_def EV_DELETE_def
      fcntl_GETFL_def fcntl_SETFL_def lwip_socket_set_userdata_def Let_def)

lemma constructors_ENOTTY:
  assumes "fd_status g d = Some fl" "fl \<noteq> - 1" "fst setfl_res \<noteq> 0" "snd setfl_res = ENOTTY"
  shows "AsyncIO_NewConnectionListener_kqueue (Some p) setfl_res d cb ud g = (None, g)"
    and "AsyncIO_NewConnectionListener_select (Some p) setfl_res d cb ud g = (None, g)"
    and "\<exists>g'. AsyncIO_NewConnection_kqueue (Some p) setfl_res d cb ud g = (Some p, g')
           \<and> fd_status g' = fd_status g
           \<and> mem g' = (mem g)(p \<mapsto> zeroed\<lparr>fd := d, type := kAIO_TYPE_CONNECTION,
                                           callback := cb, userdata := ud\<rparr>)"
    and "\<exists>g'. AsyncIO_NewConnection_select (Some p) setfl_res d cb ud g = (Some p, g')
           \<and> fd_status g' = fd_status g
           \<and> mem g' = (mem g)(p \<mapsto> zeroed\<lparr>fd := d, type := kAIO_TYPE_CONNECTION,
                                           callback := cb, userdata := ud\<rparr>)"
  using assms
  by (simp_all add: AsyncIO_NewConnectionListener_kqueue_def
      AsyncIO_NewConnectionListener_select_def AsyncIO_NewConnection_kqueue_def
      AsyncIO_NewConnection_select_def
      fcntl_GETFL_def fcntl_SETFL_def lwip_socket_set_userdata_def Let_def)






subsection \<open>The timeout of one wait\<close>

text \<open>
  In the \<open>select\<close> build the timeout handed to \<open>select\<close> is the smaller of the
  caller's and the next timer's when a timer is armed, and the timer's alone when the
  caller gives none.  When no timer is armed \<open>to\<close> is never assigned.  In the kqueue
  build the caller's timeout is passed on as it is.
\<close>

lemma wait_timeout_select_no_timer: "wait_timeout_select timeout None = Indeterminate"
  by (simp add: wait_timeout_select_def)

lemma wait_timeout_select_both:
  "wait_timeout_select (Some c) (Some (tv, t)) = Ptr (if timeval_gt tv c then c else tv)"
  by (simp add: wait_timeout_select_def)

lemma wait_timeout_select_timer_only:
  "wait_timeout_select None (Some (tv, t)) = Ptr tv"
  by (simp add: wait_timeout_select_def)

lemma WaitForEvents_select_no_timer:
  assumes "enabled_timers g = None"
  shows "AsyncIO_WaitForEvents_select maxnfds now timeout sel g = Some (Inl UninitializedRead)"
proof -
  obtain mx r w where b: "build_fd_sets maxnfds g = (mx, r, w)"
    by (cases "build_fd_sets maxnfds g")
  have "AsyncIO_GetNextTimerFireTime now (g\<lparr>aio_next_enabled_timer := None\<rparr>) = Some (Inr None)"
    using assms by (simp add: AsyncIO_GetNextTimerFireTime_def next_timer_scan.simps)
  then show ?thesis
    by (simp add: AsyncIO_WaitForEvents_select_def b wait_timeout_select_def)
qed

lemma WaitForEvents_kqueue_timeout:
  "fst (snd (snd (AsyncIO_WaitForEvents_kqueue timeout kres g)))
     = map_option (\<lambda>t. (tv_sec t, tv_usec t * 1000)) timeout"
  by (cases kres; cases timeout)
     (simp_all add: AsyncIO_WaitForEvents_kqueue_def Let_def case_prod_beta)

text \<open>
  C5.  With no timer armed the caller's timeout alone should bound the wait.  In the
  \<open>select\<close> build \<open>AsyncIO_WaitForEvents\<close> then reads the local \<open>to\<close>, which was
  never assigned: with a connection armed on descriptor 5, no timer, and a caller's
  timeout of five seconds, the call stops at that read.
\<close>

theorem AsyncIO_WaitForEvents_select_no_timer_uninitialized:
  "fault_of (AsyncIO_WaitForEvents_select 8 100 (Some \<lparr>tv_sec = 5, tv_usec = 0\<rparr>)
       \<lparr>sel_ret = 1, sel_readable = {5}, sel_writable = {}\<rparr> armed_both_select)
     = Some UninitializedRead"
  by code_simp


subsection \<open>Releasing a handle from its own callback\<close>

text \<open>
  \<open>AsyncIO_Release\<close> frees the handle and, when the handle is the one in progress,
  resets the marker; the dispatcher of the kqueue build then skips the
  \<open>kAIO_CONNECTION_CLOSED\<close> callback that would follow a read event with
  \<open>EV_EOF\<close>.
\<close>

lemma kevent_change_keeps:
  "mem (snd (kevent_change ke g)) = mem g"
  "anioInProgress (snd (kevent_change ke g)) = anioInProgress g"
  by (simp_all add: kevent_change_def)

lemma DisableTimer_kqueue_keeps:
  "mem (snd (AsyncIO_DisableTimer_kqueue t g)) = mem g"
  "anioInProgress (snd (AsyncIO_DisableTimer_kqueue t g)) = anioInProgress g"
  by (simp_all add: AsyncIO_DisableTimer_kqueue_def case_prod_beta kevent_change_keeps)

lemma release_tail_clears:
  "mem g p = Some a \<Longrightarrow>
     \<exists>g'. release_tail p c g = Inr (0, g') \<and> mem g' p = None
          \<and> (anioInProgress g = Some p \<longrightarrow> anioInProgress g' = None)"
  by (simp add: release_tail_def Let_def close_fd_def)

lemma AsyncIO_Release_kqueue_clears_marker:
  assumes "mem g p = Some a"
  shows "\<exists>g'. AsyncIO_Release_kqueue (Some p) c g = Inr (0, g') \<and> mem g' p = None
          \<and> (anioInProgress g = Some p \<longrightarrow> anioInProgress g' = None)"
proof -
  let ?g1 = "(if type a = kAIO_TYPE_TIMER
                          then snd (AsyncIO_DisableTimer_kqueue (Some p) g) else g)"
  let ?g2 = "(if notifyOnRead a
                          then snd (kevent_change
                                 \<lparr>ident = fd a, kfilter = EVFILT_READ, flags = EV_DELETE,
                                  udata = Some p\<rparr> ?g1)
                          else ?g1)"
  let ?g3 = "(if notifyOnWrite a
                          then snd (kevent_change
                                 \<lparr>ident = fd a, kfilter = EVFILT_WRITE, flags = EV_DELETE,
                                  udata = Some p\<rparr> ?g2)
                          else ?g2)"
  have m: "mem ?g3 p = Some a" "anioInProgress ?g3 = anioInProgress g"
    using assms by (simp_all add: kevent_change_keeps DisableTimer_kqueue_keeps)
  have r: "AsyncIO_Release_kqueue (Some p) c g = release_tail p c ?g3"
    using assms by (simp add: AsyncIO_Release_kqueue_def Let_def)
  from release_tail_clears [OF m(1), of c] m(2) r show ?thesis by auto
qed

lemma kqueue_event_self_release:
  assumes "mem g h = Some a" "type a = kAIO_TYPE_CONNECTION"
    "udata e = Some h" "kfilter e = EVFILT_READ"
  shows "\<exists>g'. kqueue_event release_on_data e (g, tr)
               = Some (Inr (g', tr @ [(kAIO_DATA_AVAILABLE, h, ident e)]))
           \<and> anioInProgress g' = None \<and> mem g' h = None"
proof -
  let ?g0 = "g\<lparr>anioInProgress := Some h, mem := (mem g)(h \<mapsto> a\<lparr>notifyOnRead := False\<rparr>)\<rparr>"
  have "mem ?g0 h = Some (a\<lparr>notifyOnRead := False\<rparr>)" by simp
  from AsyncIO_Release_kqueue_clears_marker [OF this, of False]
  obtain g1 where g1: "AsyncIO_Release_kqueue (Some h) False ?g0 = Inr (0, g1)"
    "mem g1 h = None" "anioInProgress g1 = None"
    by auto
  have f: "kqueue_filter_event release_on_data e (g\<lparr>anioInProgress := udata e\<rparr>, tr)
             = Some (Inr (g1, tr @ [(kAIO_DATA_AVAILABLE, h, ident e)]))"
    using assms g1(1)
    by (simp add: kqueue_filter_event_def invoke_def release_on_data_def and_then_def
        kAIO_TYPE_CONNECTION_def kAIO_TYPE_LISTENER_def)
  show ?thesis
    using f g1(2,3) assms(3)
    by (auto simp: kqueue_event_def and_then_def)
qed

text \<open>
  C3.  After a handle is released from its own callback, nothing in the same pass should
  touch it.  The marker only guards the end-of-file callback.  In the kqueue build, a
  connection armed for reading and writing whose two events arrive in one batch, and
  whose callback releases it on \<open>kAIO_DATA_AVAILABLE\<close>, is dereferenced again
  (\<open>anio->notifyOnWrite = false\<close>) when the loop reaches the write event.
\<close>

theorem AsyncIO_ProcessEvents_kqueue_use_after_release:
  "(case AsyncIO_WaitForEvents_kqueue None
           (KeventFired [(5, EVFILT_READ, 0), (5, EVFILT_WRITE, 0)]) armed_both_kqueue of
      (r, ctx, to, g) \<Rightarrow>
        (map (\<lambda>e. (kfilter e, udata e)) (kv ctx),
         fault_of (AsyncIO_ProcessEvents_kqueue release_on_data ctx (g, []))))
     = ([(EVFILT_READ, Some 1), (EVFILT_WRITE, Some 1)], Some BadPointer)"
  by code_simp


text \<open>
  The same in \<open>AsyncIO_Run\<close> of the \<open>select\<close> build, when the descriptor is
  found readable and writable in the same turn.
\<close>

lemma AsyncIO_Run_select_use_after_release:
  "fault_of (AsyncIO_Run_select 8 release_on_data_select False
       [(100, \<lparr>sel_ret = 2, sel_readable = {5}, sel_writable = {5}\<rparr>)] (armed_both_select, []))
     = Some BadPointer"
  by code_simp


subsection \<open>One-shot interest\<close>

lemma select_read_event_disarmed:
  assumes "sock_userdata g i = Some h" "mem g h = Some a" "type a = kAIO_TYPE_CONNECTION"
  shows "\<exists>g0. i \<notin> anioReadSet g0 \<and> map_option notifyOnRead (mem g0 h) = Some False
           \<and> select_read_event prog i (g, tr)
               = and_then (prog (callback a) kAIO_DATA_AVAILABLE h (fd a) (userdata a) g0)
                   (\<lambda>g1. Some (Inr (g1\<lparr>anioInProgress := None\<rparr>,
                                      tr @ [(kAIO_DATA_AVAILABLE, h, fd a)])))"
  using assms
  by (intro exI [of _ "g\<lparr>anioReadSet := anioReadSet g - {i}, anioInProgress := Some h,
                         mem := (mem g)(h \<mapsto> a\<lparr>notifyOnRead := False\<rparr>)\<rparr>"])
     (simp add: select_read_event_def invoke_def and_then_def Let_def
        kAIO_TYPE_CONNECTION_def kAIO_TYPE_LISTENER_def split: option.splits sum.splits)

lemma select_write_event_disarmed:
  assumes "sock_userdata g i = Some h" "mem g h = Some a"
  shows "\<exists>g0. i \<notin> anioWriteSet g0 \<and> map_option notifyOnWrite (mem g0 h) = Some False
           \<and> select_write_event prog i (g, tr)
               = and_then (prog (callback a) kAIO_READY_FOR_WRITE h (fd a) (userdata a) g0)
                   (\<lambda>g1. Some (Inr (g1\<lparr>anioInProgress := None\<rparr>,
                                      tr @ [(kAIO_READY_FOR_WRITE, h, fd a)])))"
  using assms
  by (intro exI [of _ "g\<lparr>anioWriteSet := anioWriteSet g - {i}, anioInProgress := Some h,
                         mem := (mem g)(h \<mapsto> a\<lparr>notifyOnWrite := False\<rparr>)\<rparr>"])
     (simp add: select_write_event_def invoke_def and_then_def Let_def
        split: option.splits sum.splits)

lemma kqueue_read_event_disarmed:
  assumes "mem g h = Some a" "type a = kAIO_TYPE_CONNECTION"
    "udata e = Some h" "kfilter e = EVFILT_READ"
  shows "\<exists>g0. map_option notifyOnRead (mem g0 h) = Some False
           \<and> kqueue_filter_event prog e (g, tr)
               = and_then (prog (callback a) kAIO_DATA_AVAILABLE h (ident e) (userdata a) g0)
                   (\<lambda>g1. Some (Inr (g1, tr @ [(kAIO_DATA_AVAILABLE, h, ident e)])))"
  using assms
  by (intro exI [of _ "g\<lparr>mem := (mem g)(h \<mapsto> a\<lparr>notifyOnRead := False\<rparr>)\<rparr>"])
     (simp add: kqueue_filter_event_def invoke_def and_then_def
        kAIO_TYPE_CONNECTION_def kAIO_TYPE_LISTENER_def split: option.splits sum.splits)

lemma kqueue_write_event_disarmed:
  assumes "mem g h = Some a" "udata e = Some h" "kfilter e = EVFILT_WRITE"
  shows "\<exists>g0. map_option notifyOnWrite (mem g0 h) = Some False
           \<and> kqueue_filter_event prog e (g, tr)
               = and_then (prog (callback a) kAIO_READY_FOR_WRITE h (ident e) (userdata a) g0)
                   (\<lambda>g1. Some (Inr (g1, tr @ [(kAIO_READY_FOR_WRITE, h, ident e)])))"
  using assms
  by (intro exI [of _ "g\<lparr>mem := (mem g)(h \<mapsto> a\<lparr>notifyOnWrite := False\<rparr>)\<rparr>"])
     (simp add: kqueue_filter_event_def invoke_def and_then_def
        EVFILT_READ_def EVFILT_WRITE_def split: option.splits sum.splits)

lemma NotifyOnReadability_select_arms:
  assumes "mem g h = Some a" "0 \<le> fd a"
  shows "\<exists>g'. AsyncIO_NotifyOnReadability_select (Some h) g = Inr (0, g')
           \<and> fd a \<in> anioReadSet g' \<and> map_option notifyOnRead (mem g' h) = Some True"
  using assms
  by (simp add: AsyncIO_NotifyOnReadability_select_def lwip_socket_set_userdata_def)

lemma NotifyOnWritability_select_arms:
  assumes "mem g h = Some a" "0 \<le> fd a"
  shows "\<exists>g'. AsyncIO_NotifyOnWritability_select (Some h) g = Inr (0, g')
           \<and> fd a \<in> anioWriteSet g' \<and> map_option notifyOnWrite (mem g' h) = Some True"
  using assms
  by (simp add: AsyncIO_NotifyOnWritability_select_def lwip_socket_set_userdata_def)

lemma callbacks_for_snoc:
  "callbacks_for ev (tr @ [(k, a, d)]) = callbacks_for ev tr + (if k = ev then 1 else 0)"
  by (simp add: callbacks_for_def)

lemma invoke_state:
  "invoke prog k anio d st = Some (Inr st') \<Longrightarrow>
     \<exists>cb ud. prog cb k anio d ud (fst st) = Some (Inr (fst st'))"
proof -
  assume i: "invoke prog k anio d st = Some (Inr st')"
  then obtain a where a: "mem (fst st) anio = Some a"
    by (auto simp: invoke_def split: option.splits)
  with i have "prog (callback a) k anio d (userdata a) (fst st) = Some (Inr (fst st'))"
    by (auto simp: invoke_def dest!: and_then_Inr)
  then show ?thesis by blast
qed

lemma invoke_never_arms_select:
  assumes "never_arms_select prog" "invoke prog k anio d st = Some (Inr st')"
  shows "anioReadSet (fst st') \<subseteq> anioReadSet (fst st)"
    and "anioWriteSet (fst st') \<subseteq> anioWriteSet (fst st)"
    and "callbacks_for ev (snd st') = callbacks_for ev (snd st) + (if k = ev then 1 else 0)"
proof -
  from invoke_state [OF assms(2)] obtain cb ud where
    p: "prog cb k anio d ud (fst st) = Some (Inr (fst st'))" by blast
  from assms(1) p show "anioReadSet (fst st') \<subseteq> anioReadSet (fst st)"
    unfolding never_arms_select_def by blast
  from assms(1) p show "anioWriteSet (fst st') \<subseteq> anioWriteSet (fst st)"
    unfolding never_arms_select_def by blast
  from invoke_trace [OF assms(2)]
  show "callbacks_for ev (snd st') = callbacks_for ev (snd st) + (if k = ev then 1 else 0)"
    by (simp add: callbacks_for_snoc)
qed

lemma select_read_event_consumes:
  assumes n: "never_arms_select prog" and r: "select_read_event prog i st = Some (Inr st')"
  shows "anioReadSet (fst st') \<subseteq> anioReadSet (fst st) - {i}
       \<and> anioWriteSet (fst st') \<subseteq> anioWriteSet (fst st)
       \<and> callbacks_for kAIO_DATA_AVAILABLE (snd st') \<le> callbacks_for kAIO_DATA_AVAILABLE (snd st) + 1
       \<and> callbacks_for kAIO_READY_FOR_WRITE (snd st') = callbacks_for kAIO_READY_FOR_WRITE (snd st)"
proof -
  from r obtain h a where u: "sock_userdata (fst st) i = Some h" and m: "mem (fst st) h = Some a"
    by (auto simp: select_read_event_def Let_def split: option.splits)
  let ?g1 = "(fst st)\<lparr>anioReadSet := anioReadSet (fst st) - {i}, anioInProgress := Some h\<rparr>"
  from r u m obtain st2 where
    c: "(if type a = kAIO_TYPE_LISTENER
           then invoke prog kAIO_NEW_CONNECTION h (fd a) (?g1, snd st)
         else if type a = kAIO_TYPE_CONNECTION
           then invoke prog kAIO_DATA_AVAILABLE h (fd a)
                  (?g1\<lparr>mem := (mem ?g1)(h \<mapsto> a\<lparr>notifyOnRead := False\<rparr>)\<rparr>, snd st)
         else Some (Inr (?g1, snd st))) = Some (Inr st2)"
    and e: "st' = ((fst st2)\<lparr>anioInProgress := None\<rparr>, snd st2)"
    by (auto simp: select_read_event_def Let_def dest!: and_then_Inr)
  have "anioReadSet (fst st2) \<subseteq> anioReadSet (fst st) - {i}
       \<and> anioWriteSet (fst st2) \<subseteq> anioWriteSet (fst st)
       \<and> callbacks_for kAIO_DATA_AVAILABLE (snd st2) \<le> callbacks_for kAIO_DATA_AVAILABLE (snd st) + 1
       \<and> callbacks_for kAIO_READY_FOR_WRITE (snd st2) = callbacks_for kAIO_READY_FOR_WRITE (snd st)"
  proof (cases "type a = kAIO_TYPE_LISTENER")
    case True
    with c have i: "invoke prog kAIO_NEW_CONNECTION h (fd a) (?g1, snd st) = Some (Inr st2)"
      by simp
    from invoke_never_arms_select [OF n i] show ?thesis
      by (simp add: kAIO_NEW_CONNECTION_def kAIO_DATA_AVAILABLE_def kAIO_READY_FOR_WRITE_def)
  next
    case False
    show ?thesis
    proof (cases "type a = kAIO_TYPE_CONNECTION")
      case True
      with c False have i: "invoke prog kAIO_DATA_AVAILABLE h (fd a)
                  (?g1\<lparr>mem := (mem ?g1)(h \<mapsto> a\<lparr>notifyOnRead := False\<rparr>)\<rparr>, snd st) = Some (Inr st2)"
        by simp
      from invoke_never_arms_select [OF n i] show ?thesis
        by (simp add: kAIO_DATA_AVAILABLE_def kAIO_READY_FOR_WRITE_def)
    next
      case f: False
      with c False have "st2 = (?g1, snd st)" by simp
      then show ?thesis by simp
    qed
  qed
  with e show ?thesis by simp
qed

lemma select_write_event_consumes:
  assumes n: "never_arms_select prog" and r: "select_write_event prog i st = Some (Inr st')"
  shows "anioWriteSet (fst st') \<subseteq> anioWriteSet (fst st) - {i}
       \<and> anioReadSet (fst st') \<subseteq> anioReadSet (fst st)
       \<and> callbacks_for kAIO_READY_FOR_WRITE (snd st') \<le> callbacks_for kAIO_READY_FOR_WRITE (snd st) + 1
       \<and> callbacks_for kAIO_DATA_AVAILABLE (snd st') = callbacks_for kAIO_DATA_AVAILABLE (snd st)"
proof -
  from r obtain h a where u: "sock_userdata (fst st) i = Some h" and m: "mem (fst st) h = Some a"
    by (auto simp: select_write_event_def Let_def split: option.splits)
  let ?g1 = "(fst st)\<lparr>anioWriteSet := anioWriteSet (fst st) - {i}, anioInProgress := Some h\<rparr>"
  from r u m obtain st2 where
    i: "invoke prog kAIO_READY_FOR_WRITE h (fd a)
          (?g1\<lparr>mem := (mem ?g1)(h \<mapsto> a\<lparr>notifyOnWrite := False\<rparr>)\<rparr>, snd st) = Some (Inr st2)"
    and e: "st' = ((fst st2)\<lparr>anioInProgress := None\<rparr>, snd st2)"
    by (auto simp: select_write_event_def Let_def dest!: and_then_Inr)
  from invoke_never_arms_select [OF n i] e show ?thesis
    by (simp add: kAIO_DATA_AVAILABLE_def kAIO_READY_FOR_WRITE_def)
qed

lemma DisableTimer_select_interest:
  assumes "AsyncIO_DisableTimer_select t g = Some (Inr (r, g'))"
  shows "anioReadSet g' = anioReadSet g \<and> anioWriteSet g' = anioWriteSet g"
  using assms
  by (auto simp: AsyncIO_DisableTimer_select_def Let_def clear_next_timer_def
      dest!: and_then_Inr split: option.splits if_splits)

lemma select_timeout_event_keeps:
  assumes n: "never_arms_select prog" and r: "select_timeout_event prog st = Some (Inr st')"
  shows "anioReadSet (fst st') \<subseteq> anioReadSet (fst st)
       \<and> anioWriteSet (fst st') \<subseteq> anioWriteSet (fst st)
       \<and> callbacks_for kAIO_DATA_AVAILABLE (snd st') = callbacks_for kAIO_DATA_AVAILABLE (snd st)
       \<and> callbacks_for kAIO_READY_FOR_WRITE (snd st') = callbacks_for kAIO_READY_FOR_WRITE (snd st)"
proof (cases "aio_next_enabled_timer (fst st)")
  case None
  with r show ?thesis by (simp add: select_timeout_event_def)
next
  case (Some h)
  with r obtain x g1 st2 where
    d: "AsyncIO_DisableTimer_select (Some h) (fst st) = Some (Inr (x, g1))"
    and i: "invoke prog kAIO_TIMER_FIRED h (- 1) (g1\<lparr>anioInProgress := Some h\<rparr>, snd st)
              = Some (Inr st2)"
    and e: "st' = ((fst st2)\<lparr>anioInProgress := None\<rparr>, snd st2)"
    by (auto simp: select_timeout_event_def dest!: and_then_Inr)
  from DisableTimer_select_interest [OF d] invoke_never_arms_select [OF n i] e show ?thesis
    by (simp add: kAIO_DATA_AVAILABLE_def kAIO_READY_FOR_WRITE_def kAIO_TIMER_FIRED_def)
qed

lemma select_fd_loop_consumes:
  assumes nv: "never_arms_select prog"
  shows "distinct is \<Longrightarrow> select_fd_loop prog rd wr is n st = Some (Inr st') \<Longrightarrow>
     \<exists>D E. D \<subseteq> rd \<inter> set is \<and> E \<subseteq> wr \<inter> set is
       \<and> anioReadSet (fst st') \<subseteq> anioReadSet (fst st) - D
       \<and> anioWriteSet (fst st') \<subseteq> anioWriteSet (fst st) - E
       \<and> callbacks_for kAIO_DATA_AVAILABLE (snd st')
           \<le> callbacks_for kAIO_DATA_AVAILABLE (snd st) + card D
       \<and> callbacks_for kAIO_READY_FOR_WRITE (snd st')
           \<le> callbacks_for kAIO_READY_FOR_WRITE (snd st) + card E"
proof (induction "is" arbitrary: n st)
  case Nil
  then show ?case by (intro exI [of _ "{}"]) simp
next
  case (Cons i "is")
  show ?case
  proof (cases "n = 0")
    case True
    with Cons.prems show ?thesis by (intro exI [of _ "{}"]) simp
  next
    case False
    with Cons.prems obtain st1 st2 where
      s1: "(if i \<in> rd then select_read_event prog i st else Some (Inr st)) = Some (Inr st1)"
      and s2: "(if i \<in> wr then select_write_event prog i st1 else Some (Inr st1)) = Some (Inr st2)"
      and s3: "select_fd_loop prog rd wr is
                 (n - (if i \<in> rd then 1 else 0) - (if i \<in> wr then 1 else 0)) st2 = Some (Inr st')"
      by (auto dest!: and_then_Inr)
    from Cons.prems have dist: "distinct is" and fresh: "i \<notin> set is" by auto
    from Cons.IH [OF dist s3] obtain D E where
      de: "D \<subseteq> rd \<inter> set is" "E \<subseteq> wr \<inter> set is"
      and r3: "anioReadSet (fst st') \<subseteq> anioReadSet (fst st2) - D"
      and w3: "anioWriteSet (fst st') \<subseteq> anioWriteSet (fst st2) - E"
      and cr3: "callbacks_for kAIO_DATA_AVAILABLE (snd st')
           \<le> callbacks_for kAIO_DATA_AVAILABLE (snd st2) + card D"
      and cw3: "callbacks_for kAIO_READY_FOR_WRITE (snd st')
           \<le> callbacks_for kAIO_READY_FOR_WRITE (snd st2) + card E"
      by blast
    let ?D = "if i \<in> rd then insert i D else D"
    let ?E = "if i \<in> wr then insert i E else E"
    from de fresh have fin: "finite D" "finite E" "i \<notin> D" "i \<notin> E"
      by (auto intro: finite_subset [of _ "set is"])
    then have cD: "card ?D = card D + (if i \<in> rd then 1 else 0)"
      and cE: "card ?E = card E + (if i \<in> wr then 1 else 0)"
      by simp_all
    have a1: "anioReadSet (fst st1) \<subseteq> anioReadSet (fst st) - (if i \<in> rd then {i} else {})
       \<and> anioWriteSet (fst st1) \<subseteq> anioWriteSet (fst st)
       \<and> callbacks_for kAIO_DATA_AVAILABLE (snd st1)
           \<le> callbacks_for kAIO_DATA_AVAILABLE (snd st) + (if i \<in> rd then 1 else 0)
       \<and> callbacks_for kAIO_READY_FOR_WRITE (snd st1) = callbacks_for kAIO_READY_FOR_WRITE (snd st)"
    proof (cases "i \<in> rd")
      case True
      with s1 have "select_read_event prog i st = Some (Inr st1)" by simp
      from select_read_event_consumes [OF nv this] True show ?thesis by simp
    next
      case False
      with s1 show ?thesis by simp
    qed
    have a2: "anioWriteSet (fst st2) \<subseteq> anioWriteSet (fst st1) - (if i \<in> wr then {i} else {})
       \<and> anioReadSet (fst st2) \<subseteq> anioReadSet (fst st1)
       \<and> callbacks_for kAIO_READY_FOR_WRITE (snd st2)
           \<le> callbacks_for kAIO_READY_FOR_WRITE (snd st1) + (if i \<in> wr then 1 else 0)
       \<and> callbacks_for kAIO_DATA_AVAILABLE (snd st2) = callbacks_for kAIO_DATA_AVAILABLE (snd st1)"
    proof (cases "i \<in> wr")
      case True
      with s2 have "select_write_event prog i st1 = Some (Inr st2)" by simp
      from select_write_event_consumes [OF nv this] True show ?thesis by simp
    next
      case False
      with s2 show ?thesis by simp
    qed
    have "?D \<subseteq> rd \<inter> set (i # is)" "?E \<subseteq> wr \<inter> set (i # is)"
      using de by auto
    moreover have "anioReadSet (fst st') \<subseteq> anioReadSet (fst st) - ?D"
    proof -
      from a1 have x: "anioReadSet (fst st1) \<subseteq> anioReadSet (fst st) - (if i \<in> rd then {i} else {})"
        by (rule conjunct1)
      from a2 have y: "anioReadSet (fst st2) \<subseteq> anioReadSet (fst st1)" by blast
      from r3 x y show ?thesis by (cases "i \<in> rd") auto
    qed
    moreover have "anioWriteSet (fst st') \<subseteq> anioWriteSet (fst st) - ?E"
    proof -
      from a2 have x: "anioWriteSet (fst st2) \<subseteq> anioWriteSet (fst st1) - (if i \<in> wr then {i} else {})"
        by (rule conjunct1)
      from a1 have y: "anioWriteSet (fst st1) \<subseteq> anioWriteSet (fst st)" by blast
      from w3 x y show ?thesis by (cases "i \<in> wr") auto
    qed
    moreover have "callbacks_for kAIO_DATA_AVAILABLE (snd st')
           \<le> callbacks_for kAIO_DATA_AVAILABLE (snd st) + card ?D"
      using cr3 a1 a2 unfolding cD by linarith
    moreover have "callbacks_for kAIO_READY_FOR_WRITE (snd st')
           \<le> callbacks_for kAIO_READY_FOR_WRITE (snd st) + card ?E"
      using cw3 a1 a2 unfolding cE by linarith
    ultimately show ?thesis by blast
  qed
qed

lemma consumed_potential:
  assumes "finite X" "D \<subseteq> A \<inter> X" "A' \<subseteq> A - D" "(c' :: nat) \<le> c + card D"
  shows "c' + card (A' \<inter> X) \<le> c + card (A \<inter> X)"
proof -
  from assms(1) have f: "finite (A \<inter> X)" by simp
  from assms(2) f have fd: "finite D" by (rule finite_subset)
  have "A' \<inter> X \<subseteq> (A \<inter> X) - D" using assms(3) by auto
  with f have "card (A' \<inter> X) \<le> card ((A \<inter> X) - D)" by (intro card_mono) auto
  also have "\<dots> = card (A \<inter> X) - card D" using fd assms(2) by (simp add: card_Diff_subset)
  finally have 1: "card (A' \<inter> X) \<le> card (A \<inter> X) - card D" .
  have 2: "card D \<le> card (A \<inter> X)" using assms(2) f by (intro card_mono)
  from 1 2 assms(4) show ?thesis by linarith
qed

lemma scan_fd_sets_range:
  "fst (snd (scan_fd_sets rs ws is (mx, r, w))) \<subseteq> r \<union> (rs \<inter> set is)
   \<and> snd (snd (scan_fd_sets rs ws is (mx, r, w))) \<subseteq> w \<union> (ws \<inter> set is)"
proof (induction "is" arbitrary: mx r w)
  case Nil
  then show ?case by simp
next
  case (Cons a "is")
  let ?r1 = "if a \<in> rs then insert a r else r"
  let ?w1 = "if a \<in> ws then insert a w else w"
  let ?mx = "if a \<in> ws then a else if a \<in> rs then a else mx"
  have step: "scan_fd_sets rs ws (a # is) (mx, r, w) = scan_fd_sets rs ws is (?mx, ?r1, ?w1)"
    by (simp add: Let_def)
  have "?r1 \<union> (rs \<inter> set is) \<subseteq> r \<union> (rs \<inter> set (a # is))"
    "?w1 \<union> (ws \<inter> set is) \<subseteq> w \<union> (ws \<inter> set (a # is))" by auto
  with Cons.IH [of ?mx ?r1 ?w1] show ?case
    unfolding step by blast
qed

lemma build_fd_sets_range:
  "fst (snd (build_fd_sets n g)) \<subseteq> anioReadSet g \<inter> {0..n - 1}"
  "snd (snd (build_fd_sets n g)) \<subseteq> anioWriteSet g \<inter> {0..n - 1}"
  using scan_fd_sets_range [of "anioReadSet g" "anioWriteSet g" "[0..n - 1]" "- 1" "{}" "{}"]
  by (simp_all add: build_fd_sets_def)

lemma select_pass_budget:
  assumes nv: "never_arms_select prog" and fin: "finite X"
    and rd: "rd \<subseteq> anioReadSet (fst st) \<inter> X" and wr: "wr \<subseteq> anioWriteSet (fst st) \<inter> X"
    and l: "select_fd_loop prog rd wr [0..mx] n st = Some (Inr st')"
  shows "callbacks_for kAIO_DATA_AVAILABLE (snd st') + card (anioReadSet (fst st') \<inter> X)
           \<le> callbacks_for kAIO_DATA_AVAILABLE (snd st) + card (anioReadSet (fst st) \<inter> X)
       \<and> callbacks_for kAIO_READY_FOR_WRITE (snd st') + card (anioWriteSet (fst st') \<inter> X)
           \<le> callbacks_for kAIO_READY_FOR_WRITE (snd st) + card (anioWriteSet (fst st) \<inter> X)"
proof -
  have "distinct [0..mx]" by simp
  from select_fd_loop_consumes [OF nv this l] obtain D E where
    de: "D \<subseteq> rd \<inter> set [0..mx]" "E \<subseteq> wr \<inter> set [0..mx]"
    and r3: "anioReadSet (fst st') \<subseteq> anioReadSet (fst st) - D"
    and w3: "anioWriteSet (fst st') \<subseteq> anioWriteSet (fst st) - E"
    and cr3: "callbacks_for kAIO_DATA_AVAILABLE (snd st')
         \<le> callbacks_for kAIO_DATA_AVAILABLE (snd st) + card D"
    and cw3: "callbacks_for kAIO_READY_FOR_WRITE (snd st')
         \<le> callbacks_for kAIO_READY_FOR_WRITE (snd st) + card E"
    by blast
  from de rd wr have d: "D \<subseteq> anioReadSet (fst st) \<inter> X" and e: "E \<subseteq> anioWriteSet (fst st) \<inter> X"
    by blast+
  from consumed_potential [OF fin d r3 cr3] consumed_potential [OF fin e w3 cw3]
  show ?thesis by blast
qed

lemma select_timeout_budget:
  assumes nv: "never_arms_select prog" and fin: "finite X"
    and l: "select_timeout_event prog st = Some (Inr st')"
  shows "callbacks_for kAIO_DATA_AVAILABLE (snd st') + card (anioReadSet (fst st') \<inter> X)
           \<le> callbacks_for kAIO_DATA_AVAILABLE (snd st) + card (anioReadSet (fst st) \<inter> X)
       \<and> callbacks_for kAIO_READY_FOR_WRITE (snd st') + card (anioWriteSet (fst st') \<inter> X)
           \<le> callbacks_for kAIO_READY_FOR_WRITE (snd st) + card (anioWriteSet (fst st) \<inter> X)"
proof -
  from select_timeout_event_keeps [OF nv l] have
    r: "anioReadSet (fst st') \<subseteq> anioReadSet (fst st) - {}"
    and w: "anioWriteSet (fst st') \<subseteq> anioWriteSet (fst st) - {}"
    and cr: "callbacks_for kAIO_DATA_AVAILABLE (snd st')
         \<le> callbacks_for kAIO_DATA_AVAILABLE (snd st) + card ({} :: int set)"
    and cw: "callbacks_for kAIO_READY_FOR_WRITE (snd st')
         \<le> callbacks_for kAIO_READY_FOR_WRITE (snd st) + card ({} :: int set)"
    by simp_all
  from consumed_potential [OF fin _ r cr] consumed_potential [OF fin _ w cw]
  show ?thesis by blast
qed

lemma Run_select_turn_cases:
  assumes "Run_select_turn maxnfds prog now sel st = Some (Inr (going, st'))"
  shows "\<exists>g2 mx rd wr. anioReadSet g2 = anioReadSet (fst st) \<and> anioWriteSet g2 = anioWriteSet (fst st)
           \<and> rd \<subseteq> anioReadSet (fst st) \<inter> {0..maxnfds - 1}
           \<and> wr \<subseteq> anioWriteSet (fst st) \<inter> {0..maxnfds - 1}
           \<and> (st' = (g2, snd st)
              \<or> select_timeout_event prog (g2, snd st) = Some (Inr st')
              \<or> select_fd_loop prog rd wr [0..mx] (sel_ret sel) (g2, snd st) = Some (Inr st'))"
proof -
  obtain mx rr w where b: "build_fd_sets maxnfds (fst st) = (mx, rr, w)"
    by (cases "build_fd_sets maxnfds (fst st)")
  from build_fd_sets_range [of maxnfds "fst st"] b
  have rg: "rr \<inter> sel_readable sel \<subseteq> anioReadSet (fst st) \<inter> {0..maxnfds - 1}"
    "w \<inter> sel_writable sel \<subseteq> anioWriteSet (fst st) \<inter> {0..maxnfds - 1}"
    by auto
  let ?g1 = "(fst st)\<lparr>aio_next_enabled_timer := None\<rparr>"
  from assms obtain nxt where nx: "AsyncIO_GetNextTimerFireTime now ?g1 = Some (Inr nxt)"
    unfolding Run_select_turn_def b prod.case Let_def
    by (cases "AsyncIO_GetNextTimerFireTime now ?g1") (auto simp: and_then_def split: sum.splits)
  let ?g2 = "(case nxt of
                          None \<Rightarrow> ?g1
                        | Some (tv, t) \<Rightarrow> ?g1\<lparr>aio_next_enabled_timer := Some t\<rparr>)"
  have s: "anioReadSet ?g2 = anioReadSet (fst st)" "anioWriteSet ?g2 = anioWriteSet (fst st)"
    by (auto split: option.splits)
  from assms nx have "st' = (?g2, snd st)
              \<or> select_timeout_event prog (?g2, snd st) = Some (Inr st')
              \<or> select_fd_loop prog (rr \<inter> sel_readable sel) (w \<inter> sel_writable sel) [0..mx]
                   (sel_ret sel) (?g2, snd st) = Some (Inr st')"
    unfolding Run_select_turn_def b prod.case Let_def
    by (auto dest!: and_then_Inr split: if_splits)
  with s rg show ?thesis by blast
qed

lemma Run_select_turn_budget:
  assumes nv: "never_arms_select prog"
    and t: "Run_select_turn maxnfds prog now sel st = Some (Inr (going, st'))"
  shows "callbacks_for kAIO_DATA_AVAILABLE (snd st')
             + card (anioReadSet (fst st') \<inter> {0..maxnfds - 1})
           \<le> callbacks_for kAIO_DATA_AVAILABLE (snd st)
               + card (anioReadSet (fst st) \<inter> {0..maxnfds - 1})
       \<and> callbacks_for kAIO_READY_FOR_WRITE (snd st')
             + card (anioWriteSet (fst st') \<inter> {0..maxnfds - 1})
           \<le> callbacks_for kAIO_READY_FOR_WRITE (snd st)
               + card (anioWriteSet (fst st) \<inter> {0..maxnfds - 1})"
proof -
  have fin: "finite {0..maxnfds - 1}" by simp
  from Run_select_turn_cases [OF t] obtain g2 mx rd wr where
    s: "anioReadSet g2 = anioReadSet (fst st)" "anioWriteSet g2 = anioWriteSet (fst st)"
    and rg: "rd \<subseteq> anioReadSet (fst st) \<inter> {0..maxnfds - 1}"
      "wr \<subseteq> anioWriteSet (fst st) \<inter> {0..maxnfds - 1}"
    and c: "st' = (g2, snd st)
              \<or> select_timeout_event prog (g2, snd st) = Some (Inr st')
              \<or> select_fd_loop prog rd wr [0..mx] (sel_ret sel) (g2, snd st) = Some (Inr st')"
    by blast
  from c consider "st' = (g2, snd st)"
    | "select_timeout_event prog (g2, snd st) = Some (Inr st')"
    | "select_fd_loop prog rd wr [0..mx] (sel_ret sel) (g2, snd st) = Some (Inr st')"
    by blast
  then show ?thesis
  proof cases
    case 1
    with s show ?thesis by simp
  next
    case 2
    from select_timeout_budget [OF nv fin 2] s show ?thesis by simp
  next
    case 3
    from rg s have "rd \<subseteq> anioReadSet (fst (g2, snd st)) \<inter> {0..maxnfds - 1}"
      "wr \<subseteq> anioWriteSet (fst (g2, snd st)) \<inter> {0..maxnfds - 1}" by simp_all
    from select_pass_budget [OF nv fin this 3] s show ?thesis by simp
  qed
qed

lemma Run_select_budget:
  assumes nv: "never_arms_select prog"
  shows "AsyncIO_Run_select maxnfds prog keep turns st = Some (Inr (r, g', tr')) \<Longrightarrow>
     callbacks_for kAIO_DATA_AVAILABLE tr' + card (anioReadSet g' \<inter> {0..maxnfds - 1})
           \<le> callbacks_for kAIO_DATA_AVAILABLE (snd st)
               + card (anioReadSet (fst st) \<inter> {0..maxnfds - 1})
       \<and> callbacks_for kAIO_READY_FOR_WRITE tr' + card (anioWriteSet g' \<inter> {0..maxnfds - 1})
           \<le> callbacks_for kAIO_READY_FOR_WRITE (snd st)
               + card (anioWriteSet (fst st) \<inter> {0..maxnfds - 1})"
proof (induction turns arbitrary: st)
  case Nil
  then show ?case by simp
next
  case (Cons t turns)
  obtain now sel where t: "t = (now, sel)" by (cases t)
  from Cons.prems [unfolded t] obtain going st1 where
    turn: "Run_select_turn maxnfds prog now sel st = Some (Inr (going, st1))"
    and rest: "(if going \<and> keep then AsyncIO_Run_select maxnfds prog keep turns st1
          else Some (Inr (- 1, (fst st1)\<lparr>anioInProgress := None\<rparr>, snd st1)))
         = Some (Inr (r, g', tr'))"
    by (simp split: option.splits sum.splits prod.splits)
  note a = Run_select_turn_budget [OF nv turn]
  have c: "callbacks_for kAIO_DATA_AVAILABLE tr' + card (anioReadSet g' \<inter> {0..maxnfds - 1})
           \<le> callbacks_for kAIO_DATA_AVAILABLE (snd st1)
               + card (anioReadSet (fst st1) \<inter> {0..maxnfds - 1})
       \<and> callbacks_for kAIO_READY_FOR_WRITE tr' + card (anioWriteSet g' \<inter> {0..maxnfds - 1})
           \<le> callbacks_for kAIO_READY_FOR_WRITE (snd st1)
               + card (anioWriteSet (fst st1) \<inter> {0..maxnfds - 1})"
  proof (cases "going \<and> keep")
    case True
    with rest have "AsyncIO_Run_select maxnfds prog keep turns st1 = Some (Inr (r, g', tr'))"
      by simp
    then show ?thesis by (rule Cons.IH)
  next
    case False
    with rest show ?thesis by auto
  qed
  from a c show ?case by linarith
qed

lemma WaitForEvents_select_sets:
  assumes "AsyncIO_WaitForEvents_select maxnfds now timeout sel g = Some (Inr (r, ctx, to, g1))"
  shows "anioReadSet g1 = anioReadSet g \<and> anioWriteSet g1 = anioWriteSet g
       \<and> readfds ctx \<subseteq> anioReadSet g \<inter> {0..maxnfds - 1}
       \<and> writefds ctx \<subseteq> anioWriteSet g \<inter> {0..maxnfds - 1}"
proof -
  obtain mx rr w where b: "build_fd_sets maxnfds g = (mx, rr, w)"
    by (cases "build_fd_sets maxnfds g")
  from build_fd_sets_range [of maxnfds g] b
  have rg: "rr \<subseteq> anioReadSet g \<inter> {0..maxnfds - 1}" "w \<subseteq> anioWriteSet g \<inter> {0..maxnfds - 1}"
    by auto
  from assms have "anioReadSet g1 = anioReadSet g \<and> anioWriteSet g1 = anioWriteSet g
       \<and> readfds ctx \<subseteq> rr \<and> writefds ctx \<subseteq> w"
    unfolding AsyncIO_WaitForEvents_select_def b Let_def prod.case
    by (auto dest!: and_then_Inr split: if_splits option.splits)
  with rg show ?thesis by blast
qed

lemma ProcessEvents_select_budget:
  assumes nv: "never_arms_select prog" and fin: "finite X"
    and rd: "readfds ctx \<subseteq> anioReadSet (fst st) \<inter> X"
    and wr: "writefds ctx \<subseteq> anioWriteSet (fst st) \<inter> X"
    and p: "AsyncIO_ProcessEvents_select prog ctx st = Some (Inr (r, st'))"
  shows "callbacks_for kAIO_DATA_AVAILABLE (snd st') + card (anioReadSet (fst st') \<inter> X)
           \<le> callbacks_for kAIO_DATA_AVAILABLE (snd st) + card (anioReadSet (fst st) \<inter> X)
       \<and> callbacks_for kAIO_READY_FOR_WRITE (snd st') + card (anioWriteSet (fst st') \<inter> X)
           \<le> callbacks_for kAIO_READY_FOR_WRITE (snd st) + card (anioWriteSet (fst st) \<inter> X)"
proof -
  from p consider "st' = st"
    | "select_timeout_event prog st = Some (Inr st')"
    | "select_fd_loop prog (readfds ctx) (writefds ctx) [0..maxFd ctx] (num ctx) st
         = Some (Inr st')"
    by (auto simp: AsyncIO_ProcessEvents_select_def dest!: and_then_Inr split: if_splits)
  then show ?thesis
  proof cases
    case 1
    then show ?thesis by simp
  next
    case 2
    from select_timeout_budget [OF nv fin 2] show ?thesis .
  next
    case 3
    from select_pass_budget [OF nv fin rd wr 3] show ?thesis .
  qed
qed

lemma select_cycles_budget:
  assumes nv: "never_arms_select prog"
  shows "select_cycles maxnfds prog cs st = Some (Inr st') \<Longrightarrow>
     callbacks_for kAIO_DATA_AVAILABLE (snd st')
             + card (anioReadSet (fst st') \<inter> {0..maxnfds - 1})
           \<le> callbacks_for kAIO_DATA_AVAILABLE (snd st)
               + card (anioReadSet (fst st) \<inter> {0..maxnfds - 1})
       \<and> callbacks_for kAIO_READY_FOR_WRITE (snd st')
             + card (anioWriteSet (fst st') \<inter> {0..maxnfds - 1})
           \<le> callbacks_for kAIO_READY_FOR_WRITE (snd st)
               + card (anioWriteSet (fst st) \<inter> {0..maxnfds - 1})"
proof (induction cs arbitrary: st)
  case Nil
  then show ?case by simp
next
  case (Cons c cs)
  obtain now timeout sel where c: "c = (now, timeout, sel)" by (cases c)
  from Cons.prems [unfolded c] obtain r ctx to g1 r1 st1 where
    w: "AsyncIO_WaitForEvents_select maxnfds now timeout sel (fst st)
          = Some (Inr (r, ctx, to, g1))"
    and p: "AsyncIO_ProcessEvents_select prog ctx (g1, snd st) = Some (Inr (r1, st1))"
    and n: "select_cycles maxnfds prog cs st1 = Some (Inr st')"
    by (rule select_cycles_ConsE)
  note s = WaitForEvents_select_sets [OF w]
  have fin: "finite {0..maxnfds - 1}" by simp
  from s have "readfds ctx \<subseteq> anioReadSet (fst (g1, snd st)) \<inter> {0..maxnfds - 1}"
    "writefds ctx \<subseteq> anioWriteSet (fst (g1, snd st)) \<inter> {0..maxnfds - 1}" by simp_all
  from ProcessEvents_select_budget [OF nv fin this p] s
  have a: "callbacks_for kAIO_DATA_AVAILABLE (snd st1)
             + card (anioReadSet (fst st1) \<inter> {0..maxnfds - 1})
           \<le> callbacks_for kAIO_DATA_AVAILABLE (snd st)
               + card (anioReadSet (fst st) \<inter> {0..maxnfds - 1})
       \<and> callbacks_for kAIO_READY_FOR_WRITE (snd st1)
             + card (anioWriteSet (fst st1) \<inter> {0..maxnfds - 1})
           \<le> callbacks_for kAIO_READY_FOR_WRITE (snd st)
               + card (anioWriteSet (fst st) \<inter> {0..maxnfds - 1})"
    by simp
  from a Cons.IH [OF n] show ?case by linarith
qed

lemma registered_mono: "kn' \<subseteq>\<^sub>m kn \<Longrightarrow> registered f kn' \<subseteq> registered f kn"
  by (auto simp: registered_def dest: map_le_implies_dom_le)

lemma finite_registered: "finite (dom kn) \<Longrightarrow> finite (registered f kn)"
  by (simp add: registered_def)

lemma oneshot_on_mono: "kn' \<subseteq>\<^sub>m kn \<Longrightarrow> oneshot_on f kn \<Longrightarrow> oneshot_on f kn'"
  unfolding oneshot_on_def map_le_def by (metis domI)

lemma finite_dom_mono: "kn' \<subseteq>\<^sub>m kn \<Longrightarrow> finite (dom kn) \<Longrightarrow> finite (dom kn')"
  by (meson finite_subset map_le_implies_dom_le)

lemma registered_card_mono:
  "kn' \<subseteq>\<^sub>m kn \<Longrightarrow> finite (dom kn) \<Longrightarrow> card (registered f kn') \<le> card (registered f kn)"
  by (intro card_mono finite_registered registered_mono)

lemma registered_remove:
  assumes "finite (dom kn)" "kn (i, f) = Some k"
  shows "card (registered f (kn((i, f) := None))) + 1 = card (registered f kn)"
proof -
  have e: "registered f (kn((i, f) := None)) = registered f kn - {(i, f)}"
    by (auto simp: registered_def)
  have m: "(i, f) \<in> registered f kn" using assms(2) by (auto simp: registered_def)
  from card_Suc_Diff1 [OF finite_registered [OF assms(1), of f] m] show ?thesis
    unfolding e by simp
qed

lemma kevent_collect_budget:
  "finite (dom kn) \<Longrightarrow> oneshot_on f kn \<Longrightarrow> kevent_collect kn fired n = (evs, kn') \<Longrightarrow>
     kn' \<subseteq>\<^sub>m kn
     \<and> length (filter (\<lambda>e. kfilter e = f) evs) + card (registered f kn')
         \<le> card (registered f kn)"
proof (induction fired arbitrary: kn n evs kn')
  case Nil
  then show ?case by simp
next
  case (Cons p fired)
  obtain i f' x where p: "p = (i, f', x)" by (cases p)
  show ?case
  proof (cases "n = 0")
    case True
    with Cons.prems p show ?thesis by simp
  next
    case n: False
    show ?thesis
    proof (cases "kn (i, f')")
      case None
      with Cons.prems p n have "kevent_collect kn fired n = (evs, kn')" by simp
      from Cons.IH [OF Cons.prems(1,2) this] show ?thesis .
    next
      case (Some k)
      let ?kn1 = "(if flags k AND EV_ONESHOT \<noteq> 0 then kn((i, f') := None) else kn)"
      obtain evs2 kn2 where c: "kevent_collect ?kn1 fired (n - 1) = (evs2, kn2)"
        by (cases "kevent_collect ?kn1 fired (n - 1)")
      from Cons.prems(3) p n Some c have ev: "evs = k\<lparr>flags := flags k OR x\<rparr> # evs2"
        and kn': "kn' = kn2"
        by (simp_all add: Let_def)
      have le1: "?kn1 \<subseteq>\<^sub>m kn" by (simp add: map_le_def)
      from finite_dom_mono [OF le1 Cons.prems(1)] have f1: "finite (dom ?kn1)" .
      from oneshot_on_mono [OF le1 Cons.prems(2)] have o1: "oneshot_on f ?kn1" .
      from Cons.IH [OF f1 o1 c] have le2: "kn2 \<subseteq>\<^sub>m ?kn1"
        and b2: "length (filter (\<lambda>e. kfilter e = f) evs2) + card (registered f kn2)
                   \<le> card (registered f ?kn1)"
        by blast+
      from le2 le1 have le: "kn2 \<subseteq>\<^sub>m kn" by (rule map_le_trans)
      from Cons.prems(2) Some have kf: "kfilter k = f'"
        and os: "f' = f \<longrightarrow> flags k AND EV_ONESHOT \<noteq> 0"
        unfolding oneshot_on_def by blast+
      have "length (filter (\<lambda>e. kfilter e = f) evs) + card (registered f kn2)
               \<le> card (registered f kn)"
      proof (cases "f' = f")
        case True
        with os have k1: "?kn1 = kn((i, f) := None)" by simp
        from registered_remove [OF Cons.prems(1), of i f k] Some True
        have "card (registered f ?kn1) + 1 = card (registered f kn)"
          unfolding k1 by simp
        with b2 ev kf True show ?thesis by simp
      next
        case False
        from registered_card_mono [OF le1 Cons.prems(1), of f] b2 ev kf False
        show ?thesis by simp
      qed
      with le kn' show ?thesis by simp
    qed
  qed
qed

lemma invoke_never_arms_kqueue:
  assumes "never_arms_kqueue prog" "invoke prog k anio d st = Some (Inr st')"
  shows "knotes (fst st') \<subseteq>\<^sub>m knotes (fst st)
       \<and> callbacks_for ev (snd st') = callbacks_for ev (snd st) + (if k = ev then 1 else 0)"
proof -
  from invoke_state [OF assms(2)] obtain cb ud where
    p: "prog cb k anio d ud (fst st) = Some (Inr (fst st'))" by blast
  from assms(1) p have "knotes (fst st') \<subseteq>\<^sub>m knotes (fst st)"
    unfolding never_arms_kqueue_def by blast
  with invoke_trace [OF assms(2)] show ?thesis
    by (simp add: callbacks_for_snoc)
qed

lemma kqueue_filter_event_budget:
  assumes nv: "never_arms_kqueue prog" and e: "kqueue_filter_event prog e st = Some (Inr st')"
  shows "knotes (fst st') \<subseteq>\<^sub>m knotes (fst st)
       \<and> callbacks_for kAIO_DATA_AVAILABLE (snd st')
           \<le> callbacks_for kAIO_DATA_AVAILABLE (snd st) + (if kfilter e = EVFILT_READ then 1 else 0)
       \<and> callbacks_for kAIO_READY_FOR_WRITE (snd st')
           \<le> callbacks_for kAIO_READY_FOR_WRITE (snd st) + (if kfilter e = EVFILT_WRITE then 1 else 0)"
proof -
  from e consider "st' = st"
    | k h d g0 where "invoke prog k h d (g0, snd st) = Some (Inr st')" "knotes g0 = knotes (fst st)"
        "k = kAIO_DATA_AVAILABLE \<longrightarrow> kfilter e = EVFILT_READ"
        "k = kAIO_READY_FOR_WRITE \<longrightarrow> kfilter e = EVFILT_WRITE"
  proof -
    assume a: "st' = st \<Longrightarrow> thesis"
      and b: "\<And>k h d g0. invoke prog k h d (g0, snd st) = Some (Inr st') \<Longrightarrow>
                 knotes g0 = knotes (fst st) \<Longrightarrow>
                 k = kAIO_DATA_AVAILABLE \<longrightarrow> kfilter e = EVFILT_READ \<Longrightarrow>
                 k = kAIO_READY_FOR_WRITE \<longrightarrow> kfilter e = EVFILT_WRITE \<Longrightarrow> thesis"
    have st: "st = (fst st, snd st)" by simp
    show thesis
    proof (cases "kfilter e = EVFILT_READ")
      case True
      with e obtain h a where u: "udata e = Some h" and m: "mem (fst st) h = Some a"
        by (auto simp: kqueue_filter_event_def split: option.splits)
      show ?thesis
      proof (cases "type a = kAIO_TYPE_LISTENER")
        case l: True
        with e True u m have "invoke prog kAIO_NEW_CONNECTION h (ident e) (fst st, snd st)
            = Some (Inr st')"
          by (simp add: kqueue_filter_event_def)
        then show ?thesis
          by (rule b) (simp_all add: kAIO_NEW_CONNECTION_def kAIO_DATA_AVAILABLE_def
              kAIO_READY_FOR_WRITE_def)
      next
        case l: False
        show ?thesis
        proof (cases "type a = kAIO_TYPE_CONNECTION")
          case c: True
          with e True u m l have "invoke prog kAIO_DATA_AVAILABLE h (ident e)
                           ((fst st)\<lparr>mem := (mem (fst st))(h \<mapsto> a\<lparr>notifyOnRead := False\<rparr>)\<rparr>,
                            snd st) = Some (Inr st')"
            by (simp add: kqueue_filter_event_def)
          then show ?thesis
            by (rule b) (simp_all add: True kAIO_DATA_AVAILABLE_def kAIO_READY_FOR_WRITE_def)
        next
          case c: False
          with e True u m l have "st' = st" by (simp add: kqueue_filter_event_def)
          then show ?thesis by (rule a)
        qed
      qed
    next
      case r: False
      show ?thesis
      proof (cases "kfilter e = EVFILT_WRITE")
        case True
        with e r obtain h a where u: "udata e = Some h" and m: "mem (fst st) h = Some a"
          by (auto simp: kqueue_filter_event_def split: option.splits)
        with e r True have "invoke prog kAIO_READY_FOR_WRITE h (ident e)
                    ((fst st)\<lparr>mem := (mem (fst st))(h \<mapsto> a\<lparr>notifyOnWrite := False\<rparr>)\<rparr>,
                     snd st) = Some (Inr st')"
          by (simp add: kqueue_filter_event_def)
        then show ?thesis
          by (rule b) (simp_all add: True kAIO_DATA_AVAILABLE_def kAIO_READY_FOR_WRITE_def)
      next
        case w: False
        show ?thesis
        proof (cases "kfilter e = EVFILT_TIMER \<or> kfilter e = EVFILT_PROC \<or> kfilter e = EVFILT_SIGNAL")
          case True
          with e r w obtain h where u: "udata e = Some h"
            by (auto simp: kqueue_filter_event_def split: option.splits)
          with e r w True have "invoke prog
               (if kfilter e = EVFILT_TIMER then kAIO_TIMER_FIRED
                else if kfilter e = EVFILT_PROC then kAIO_PROCESS_EXITED
                else kAIO_SIGNAL_DELIVERED)
               h (if kfilter e = EVFILT_TIMER then - 1 else ident e) (fst st, snd st)
              = Some (Inr st')"
            by (simp add: kqueue_filter_event_def)
          then show ?thesis
            by (rule b) (simp_all add: kAIO_DATA_AVAILABLE_def kAIO_READY_FOR_WRITE_def
                kAIO_TIMER_FIRED_def kAIO_PROCESS_EXITED_def kAIO_SIGNAL_DELIVERED_def)
        next
          case False
          with e r w have "st' = st" by (simp add: kqueue_filter_event_def)
          then show ?thesis by (rule a)
        qed
      qed
    qed
  qed
  then show ?thesis
  proof cases
    case 1
    then show ?thesis by simp
  next
    case 2
    from invoke_never_arms_kqueue [OF nv 2(1), of kAIO_DATA_AVAILABLE]
      invoke_never_arms_kqueue [OF nv 2(1), of kAIO_READY_FOR_WRITE] 2(2,3,4)
    show ?thesis by auto
  qed
qed

lemma kqueue_event_budget:
  assumes nv: "never_arms_kqueue prog" and e: "kqueue_event prog e st = Some (Inr st')"
  shows "knotes (fst st') \<subseteq>\<^sub>m knotes (fst st)
       \<and> callbacks_for kAIO_DATA_AVAILABLE (snd st')
           \<le> callbacks_for kAIO_DATA_AVAILABLE (snd st) + (if kfilter e = EVFILT_READ then 1 else 0)
       \<and> callbacks_for kAIO_READY_FOR_WRITE (snd st')
           \<le> callbacks_for kAIO_READY_FOR_WRITE (snd st) + (if kfilter e = EVFILT_WRITE then 1 else 0)"
proof -
  from e obtain st1 where
    f: "kqueue_filter_event prog e ((fst st)\<lparr>anioInProgress := udata e\<rparr>, snd st) = Some (Inr st1)"
    and r: "(if flags e AND EV_EOF \<noteq> 0 \<and> kfilter e = EVFILT_READ then
            (if anioInProgress (fst st1) \<noteq> udata e then Some (Inr st1)
             else case udata e of
                    None \<Rightarrow> Some (Inl BadPointer)
                  | Some anio \<Rightarrow>
                      and_then (invoke prog kAIO_CONNECTION_CLOSED anio (ident e) st1)
                        (\<lambda>st2. Some (Inr ((fst st2)\<lparr>anioInProgress := None\<rparr>, snd st2))))
          else Some (Inr ((fst st1)\<lparr>anioInProgress := None\<rparr>, snd st1))) = Some (Inr st')"
    unfolding kqueue_event_def by (rule and_then_InrE)
  from kqueue_filter_event_budget [OF nv f] have
    a: "knotes (fst st1) \<subseteq>\<^sub>m knotes (fst st)"
    "callbacks_for kAIO_DATA_AVAILABLE (snd st1)
           \<le> callbacks_for kAIO_DATA_AVAILABLE (snd st) + (if kfilter e = EVFILT_READ then 1 else 0)"
    "callbacks_for kAIO_READY_FOR_WRITE (snd st1)
           \<le> callbacks_for kAIO_READY_FOR_WRITE (snd st) + (if kfilter e = EVFILT_WRITE then 1 else 0)"
    by simp_all
  from r consider "st' = st1" | "st' = ((fst st1)\<lparr>anioInProgress := None\<rparr>, snd st1)"
    | h st2 where "invoke prog kAIO_CONNECTION_CLOSED h (ident e) st1 = Some (Inr st2)"
        "st' = ((fst st2)\<lparr>anioInProgress := None\<rparr>, snd st2)"
    by (auto split: if_splits option.splits dest!: and_then_Inr)
  then have b: "knotes (fst st') \<subseteq>\<^sub>m knotes (fst st1)
       \<and> callbacks_for kAIO_DATA_AVAILABLE (snd st') = callbacks_for kAIO_DATA_AVAILABLE (snd st1)
       \<and> callbacks_for kAIO_READY_FOR_WRITE (snd st') = callbacks_for kAIO_READY_FOR_WRITE (snd st1)"
  proof cases
    case 1
    then show ?thesis by simp
  next
    case 2
    then show ?thesis by simp
  next
    case 3
    from invoke_never_arms_kqueue [OF nv 3(1), of kAIO_DATA_AVAILABLE]
      invoke_never_arms_kqueue [OF nv 3(1), of kAIO_READY_FOR_WRITE] 3(2)
    show ?thesis
      by (simp add: kAIO_CONNECTION_CLOSED_def kAIO_DATA_AVAILABLE_def kAIO_READY_FOR_WRITE_def)
  qed
  from b a(1) have "knotes (fst st') \<subseteq>\<^sub>m knotes (fst st)" by (blast intro: map_le_trans)
  with a(2,3) b show ?thesis by simp
qed

lemma kqueue_events_budget:
  assumes nv: "never_arms_kqueue prog"
  shows "kqueue_events prog es st = Some (Inr st') \<Longrightarrow>
     knotes (fst st') \<subseteq>\<^sub>m knotes (fst st)
       \<and> callbacks_for kAIO_DATA_AVAILABLE (snd st')
           \<le> callbacks_for kAIO_DATA_AVAILABLE (snd st)
               + length (filter (\<lambda>e. kfilter e = EVFILT_READ) es)
       \<and> callbacks_for kAIO_READY_FOR_WRITE (snd st')
           \<le> callbacks_for kAIO_READY_FOR_WRITE (snd st)
               + length (filter (\<lambda>e. kfilter e = EVFILT_WRITE) es)"
proof (induction es arbitrary: st)
  case Nil
  then show ?case by simp
next
  case (Cons e es)
  from Cons.prems obtain st1 where
    a: "kqueue_event prog e st = Some (Inr st1)" and b: "kqueue_events prog es st1 = Some (Inr st')"
    by (auto dest!: and_then_Inr)
  from kqueue_event_budget [OF nv a] Cons.IH [OF b] show ?case
    by (auto intro: map_le_trans)
qed

lemma kqueue_event_budget_for:
  assumes nv: "never_arms_kqueue prog"
    and pair: "ev = kAIO_DATA_AVAILABLE \<and> f = EVFILT_READ
               \<or> ev = kAIO_READY_FOR_WRITE \<and> f = EVFILT_WRITE"
    and e: "kqueue_event prog e st = Some (Inr st')"
  shows "knotes (fst st') \<subseteq>\<^sub>m knotes (fst st)
       \<and> callbacks_for ev (snd st') \<le> callbacks_for ev (snd st) + (if kfilter e = f then 1 else 0)"
  using kqueue_event_budget [OF nv e] pair by blast

lemma kqueue_events_budget_for:
  assumes nv: "never_arms_kqueue prog"
    and pair: "ev = kAIO_DATA_AVAILABLE \<and> f = EVFILT_READ
               \<or> ev = kAIO_READY_FOR_WRITE \<and> f = EVFILT_WRITE"
    and e: "kqueue_events prog es st = Some (Inr st')"
  shows "knotes (fst st') \<subseteq>\<^sub>m knotes (fst st)
       \<and> callbacks_for ev (snd st')
           \<le> callbacks_for ev (snd st) + length (filter (\<lambda>e. kfilter e = f) es)"
  using kqueue_events_budget [OF nv e] pair by blast

lemma filter_take_length: "length (filter P (take n xs)) \<le> length (filter P xs)"
proof -
  have "length (filter P xs) = length (filter P (take n xs)) + length (filter P (drop n xs))"
    by (metis append_take_drop_id filter_append length_append)
  then show ?thesis by simp
qed

lemma ProcessEvents_kqueue_budget:
  assumes nv: "never_arms_kqueue prog"
    and pair: "ev = kAIO_DATA_AVAILABLE \<and> f = EVFILT_READ
               \<or> ev = kAIO_READY_FOR_WRITE \<and> f = EVFILT_WRITE"
    and p: "AsyncIO_ProcessEvents_kqueue prog ctx st = Some (Inr (r, st'))"
  shows "knotes (fst st') \<subseteq>\<^sub>m knotes (fst st)
       \<and> callbacks_for ev (snd st')
           \<le> callbacks_for ev (snd st) + length (filter (\<lambda>e. kfilter e = f) (kv ctx))"
proof -
  from p have "kqueue_events prog (take (nat (num ctx)) (kv ctx)) st = Some (Inr st')"
    by (auto simp: AsyncIO_ProcessEvents_kqueue_def dest!: and_then_Inr)
  from kqueue_events_budget_for [OF nv pair this]
    filter_take_length [of "\<lambda>e. kfilter e = f" "nat (num ctx)" "kv ctx"]
  show ?thesis by linarith
qed

lemma kqueue_cycle_budget:
  assumes nv: "never_arms_kqueue prog"
    and pair: "ev = kAIO_DATA_AVAILABLE \<and> f = EVFILT_READ
               \<or> ev = kAIO_READY_FOR_WRITE \<and> f = EVFILT_WRITE"
    and fin: "finite (dom (knotes g))" and os: "oneshot_on f (knotes g)"
    and w: "AsyncIO_WaitForEvents_kqueue timeout kres g = (r, ctx, to, g1)"
    and p: "AsyncIO_ProcessEvents_kqueue prog ctx (g1, tr) = Some (Inr (r1, g', tr'))"
  shows "callbacks_for ev tr' + card (registered f (knotes g'))
           \<le> callbacks_for ev tr + card (registered f (knotes g))"
proof -
  from ProcessEvents_kqueue_budget [OF nv pair p] have
    le: "knotes g' \<subseteq>\<^sub>m knotes g1"
    and c: "callbacks_for ev tr' \<le> callbacks_for ev tr + length (filter (\<lambda>e. kfilter e = f) (kv ctx))"
    by simp_all
  have k: "knotes g1 \<subseteq>\<^sub>m knotes g
       \<and> length (filter (\<lambda>e. kfilter e = f) (kv ctx)) + card (registered f (knotes g1))
           \<le> card (registered f (knotes g))"
  proof (cases kres)
    case (KeventError x)
    with w show ?thesis by (auto simp: AsyncIO_WaitForEvents_kqueue_def Let_def)
  next
    case (KeventFired fired)
    obtain evs kn where col: "kevent_collect (knotes g) fired kMaxAsyncIOEvents = (evs, kn)"
      by (cases "kevent_collect (knotes g) fired kMaxAsyncIOEvents")
    with w KeventFired have "kv ctx = evs" "knotes g1 = kn"
      by (auto simp: AsyncIO_WaitForEvents_kqueue_def Let_def)
    with kevent_collect_budget [OF fin os col] show ?thesis by simp
  qed
  from k fin have f1: "finite (dom (knotes g1))" by (blast intro: finite_dom_mono)
  from registered_card_mono [OF le f1, of f] k c show ?thesis by linarith
qed

lemma Run_kqueue_loop_budget:
  assumes nv: "never_arms_kqueue prog"
    and pair: "ev = kAIO_DATA_AVAILABLE \<and> f = EVFILT_READ
               \<or> ev = kAIO_READY_FOR_WRITE \<and> f = EVFILT_WRITE"
  shows "finite (dom (knotes (fst st))) \<Longrightarrow> oneshot_on f (knotes (fst st)) \<Longrightarrow>
     Run_kqueue_loop prog keep dbg turns st = Some (Inr (r, g', tr')) \<Longrightarrow>
     callbacks_for ev tr' + card (registered f (knotes g'))
       \<le> callbacks_for ev (snd st) + card (registered f (knotes (fst st)))"
proof (induction turns arbitrary: st)
  case Nil
  then show ?case by simp
next
  case (Cons t turns)
  note ih = Cons.IH and prems = Cons.prems
  show ?case
  proof (cases t)
    case (KeventError x)
    show ?thesis
    proof (cases "x = EINTR \<and> dbg")
      case True
      with prems(3) KeventError
      have "Run_kqueue_loop prog keep dbg turns st = Some (Inr (r, g', tr'))" by simp
      from ih [OF prems(1,2) this] show ?thesis .
    next
      case False
      with prems(3) KeventError show ?thesis by auto
    qed
  next
    case (KeventFired fired)
    obtain evs kn where col: "kevent_collect (knotes (fst st)) fired 1 = (evs, kn)"
      by (cases "kevent_collect (knotes (fst st)) fired 1")
    from kevent_collect_budget [OF prems(1,2) col] have
      le: "kn \<subseteq>\<^sub>m knotes (fst st)"
      and b: "length (filter (\<lambda>e. kfilter e = f) evs) + card (registered f kn)
                \<le> card (registered f (knotes (fst st)))"
      by simp_all
    let ?g1 = "(fst st)\<lparr>knotes := kn\<rparr>"
    show ?thesis
    proof (cases evs)
      case Nil
      with prems(3) KeventFired col have "tr' = snd st" "knotes g' = kn"
        by (auto simp: Let_def)
      with b Nil show ?thesis by simp
    next
      case (Cons e es)
      with prems(3) KeventFired col obtain st1 where
        ev1: "kqueue_event prog e (?g1, snd st) = Some (Inr st1)"
        and rest: "Run_kqueue_loop prog keep dbg turns st1 = Some (Inr (r, g', tr'))"
        by (auto simp: Let_def dest!: and_then_Inr)
      from kqueue_event_budget_for [OF nv pair ev1] have
        le1: "knotes (fst st1) \<subseteq>\<^sub>m kn"
        and c1: "callbacks_for ev (snd st1)
                   \<le> callbacks_for ev (snd st) + (if kfilter e = f then 1 else 0)"
        by simp_all
      from le prems(1) have fk: "finite (dom kn)" by (rule finite_dom_mono)
      from le prems(2) have ok: "oneshot_on f kn" by (rule oneshot_on_mono)
      from le1 fk have f1: "finite (dom (knotes (fst st1)))" by (rule finite_dom_mono)
      from le1 ok have o1: "oneshot_on f (knotes (fst st1))" by (rule oneshot_on_mono)
      from ih [OF f1 o1 rest] have
        i: "callbacks_for ev tr' + card (registered f (knotes g'))
              \<le> callbacks_for ev (snd st1) + card (registered f (knotes (fst st1)))" .
      from registered_card_mono [OF le1 fk, of f] have
        m: "card (registered f (knotes (fst st1))) \<le> card (registered f kn)" .
      have "(if kfilter e = f then 1 else 0) \<le> length (filter (\<lambda>e. kfilter e = f) evs)"
        using Cons by simp
      with i m c1 b show ?thesis by linarith
    qed
  qed
qed

lemma select_read_event_count:
  assumes r: "select_read_event prog i st = Some (Inr st')"
  shows "callbacks_for kAIO_DATA_AVAILABLE (snd st') \<le> callbacks_for kAIO_DATA_AVAILABLE (snd st) + 1
       \<and> callbacks_for kAIO_READY_FOR_WRITE (snd st') = callbacks_for kAIO_READY_FOR_WRITE (snd st)"
proof -
  from r obtain h a where u: "sock_userdata (fst st) i = Some h" and m: "mem (fst st) h = Some a"
    by (auto simp: select_read_event_def Let_def split: option.splits)
  let ?g1 = "(fst st)\<lparr>anioReadSet := anioReadSet (fst st) - {i}, anioInProgress := Some h\<rparr>"
  from r u m obtain st2 where
    c: "(if type a = kAIO_TYPE_LISTENER
           then invoke prog kAIO_NEW_CONNECTION h (fd a) (?g1, snd st)
         else if type a = kAIO_TYPE_CONNECTION
           then invoke prog kAIO_DATA_AVAILABLE h (fd a)
                  (?g1\<lparr>mem := (mem ?g1)(h \<mapsto> a\<lparr>notifyOnRead := False\<rparr>)\<rparr>, snd st)
         else Some (Inr (?g1, snd st))) = Some (Inr st2)"
    and e: "st' = ((fst st2)\<lparr>anioInProgress := None\<rparr>, snd st2)"
    by (auto simp: select_read_event_def Let_def dest!: and_then_Inr)
  from c have "callbacks_for kAIO_DATA_AVAILABLE (snd st2)
                 \<le> callbacks_for kAIO_DATA_AVAILABLE (snd st) + 1
       \<and> callbacks_for kAIO_READY_FOR_WRITE (snd st2) = callbacks_for kAIO_READY_FOR_WRITE (snd st)"
    by (auto split: if_splits dest!: invoke_trace
        simp: callbacks_for_snoc kAIO_NEW_CONNECTION_def kAIO_DATA_AVAILABLE_def
          kAIO_READY_FOR_WRITE_def)
  with e show ?thesis by simp
qed

lemma select_write_event_count:
  assumes r: "select_write_event prog i st = Some (Inr st')"
  shows "callbacks_for kAIO_READY_FOR_WRITE (snd st') \<le> callbacks_for kAIO_READY_FOR_WRITE (snd st) + 1
       \<and> callbacks_for kAIO_DATA_AVAILABLE (snd st') = callbacks_for kAIO_DATA_AVAILABLE (snd st)"
proof -
  from r obtain h a where u: "sock_userdata (fst st) i = Some h" and m: "mem (fst st) h = Some a"
    by (auto simp: select_write_event_def Let_def split: option.splits)
  let ?g1 = "(fst st)\<lparr>anioWriteSet := anioWriteSet (fst st) - {i}, anioInProgress := Some h\<rparr>"
  from r u m obtain st2 where
    i: "invoke prog kAIO_READY_FOR_WRITE h (fd a)
          (?g1\<lparr>mem := (mem ?g1)(h \<mapsto> a\<lparr>notifyOnWrite := False\<rparr>)\<rparr>, snd st) = Some (Inr st2)"
    and e: "st' = ((fst st2)\<lparr>anioInProgress := None\<rparr>, snd st2)"
    by (auto simp: select_write_event_def Let_def dest!: and_then_Inr)
  from invoke_trace [OF i] e show ?thesis
    by (simp add: callbacks_for_snoc kAIO_DATA_AVAILABLE_def kAIO_READY_FOR_WRITE_def)
qed

lemma select_fd_loop_count:
  "select_fd_loop prog rd wr is n st = Some (Inr st') \<Longrightarrow>
     callbacks_for kAIO_DATA_AVAILABLE (snd st')
         \<le> callbacks_for kAIO_DATA_AVAILABLE (snd st) + length (filter (\<lambda>i. i \<in> rd) is)
     \<and> callbacks_for kAIO_READY_FOR_WRITE (snd st')
         \<le> callbacks_for kAIO_READY_FOR_WRITE (snd st) + length (filter (\<lambda>i. i \<in> wr) is)"
proof (induction "is" arbitrary: n st)
  case Nil
  then show ?case by simp
next
  case (Cons i "is")
  show ?case
  proof (cases "n = 0")
    case True
    with Cons.prems show ?thesis by simp
  next
    case False
    with Cons.prems obtain st1 st2 where
      s1: "(if i \<in> rd then select_read_event prog i st else Some (Inr st)) = Some (Inr st1)"
      and s2: "(if i \<in> wr then select_write_event prog i st1 else Some (Inr st1)) = Some (Inr st2)"
      and s3: "select_fd_loop prog rd wr is
                 (n - (if i \<in> rd then 1 else 0) - (if i \<in> wr then 1 else 0)) st2 = Some (Inr st')"
      by (auto dest!: and_then_Inr)
    have a1: "callbacks_for kAIO_DATA_AVAILABLE (snd st1)
           \<le> callbacks_for kAIO_DATA_AVAILABLE (snd st) + (if i \<in> rd then 1 else 0)
       \<and> callbacks_for kAIO_READY_FOR_WRITE (snd st1) = callbacks_for kAIO_READY_FOR_WRITE (snd st)"
    proof (cases "i \<in> rd")
      case True
      with s1 have "select_read_event prog i st = Some (Inr st1)" by simp
      from select_read_event_count [OF this] True show ?thesis by simp
    next
      case False
      with s1 show ?thesis by simp
    qed
    have a2: "callbacks_for kAIO_READY_FOR_WRITE (snd st2)
           \<le> callbacks_for kAIO_READY_FOR_WRITE (snd st1) + (if i \<in> wr then 1 else 0)
       \<and> callbacks_for kAIO_DATA_AVAILABLE (snd st2) = callbacks_for kAIO_DATA_AVAILABLE (snd st1)"
    proof (cases "i \<in> wr")
      case True
      with s2 have "select_write_event prog i st1 = Some (Inr st2)" by simp
      from select_write_event_count [OF this] True show ?thesis by simp
    next
      case False
      with s2 show ?thesis by simp
    qed
    have l: "length (filter (\<lambda>i. i \<in> rd) (i # is))
               = (if i \<in> rd then 1 else 0) + length (filter (\<lambda>i. i \<in> rd) is)"
      "length (filter (\<lambda>i. i \<in> wr) (i # is))
               = (if i \<in> wr then 1 else 0) + length (filter (\<lambda>i. i \<in> wr) is)"
      by simp_all
    from Cons.IH [OF s3] a1 a2 show ?thesis unfolding l by linarith
  qed
qed

lemma upto_filter_card: "length (filter (\<lambda>i. i \<in> S) [0..mx]) = card (S \<inter> {0..mx})"
proof -
  have "distinct (filter (\<lambda>i. i \<in> S) [0..mx])" by simp
  then have "length (filter (\<lambda>i. i \<in> S) [0..mx]) = card (set (filter (\<lambda>i. i \<in> S) [0..mx]))"
    by (rule distinct_card [symmetric])
  also have "set (filter (\<lambda>i. i \<in> S) [0..mx]) = S \<inter> {0..mx}" by auto
  finally show ?thesis .
qed

lemma select_timeout_event_count:
  assumes r: "select_timeout_event prog st = Some (Inr st')"
  shows "callbacks_for kAIO_DATA_AVAILABLE (snd st') = callbacks_for kAIO_DATA_AVAILABLE (snd st)
       \<and> callbacks_for kAIO_READY_FOR_WRITE (snd st') = callbacks_for kAIO_READY_FOR_WRITE (snd st)"
proof (cases "aio_next_enabled_timer (fst st)")
  case None
  with r show ?thesis by (simp add: select_timeout_event_def)
next
  case (Some h)
  with r obtain x g1 st2 where
    i: "invoke prog kAIO_TIMER_FIRED h (- 1) (g1\<lparr>anioInProgress := Some h\<rparr>, snd st)
              = Some (Inr st2)"
    and e: "st' = ((fst st2)\<lparr>anioInProgress := None\<rparr>, snd st2)"
    by (auto simp: select_timeout_event_def dest!: and_then_Inr)
  from invoke_trace [OF i] e show ?thesis
    by (simp add: callbacks_for_snoc kAIO_DATA_AVAILABLE_def kAIO_READY_FOR_WRITE_def
        kAIO_TIMER_FIRED_def)
qed

lemma ProcessEvents_select_count:
  assumes p: "AsyncIO_ProcessEvents_select prog ctx st = Some (Inr (r, st'))"
  shows "callbacks_for kAIO_DATA_AVAILABLE (snd st')
           \<le> callbacks_for kAIO_DATA_AVAILABLE (snd st) + card (readfds ctx \<inter> {0..maxFd ctx})
       \<and> callbacks_for kAIO_READY_FOR_WRITE (snd st')
           \<le> callbacks_for kAIO_READY_FOR_WRITE (snd st) + card (writefds ctx \<inter> {0..maxFd ctx})"
proof -
  from p consider "st' = st"
    | "select_timeout_event prog st = Some (Inr st')"
    | "select_fd_loop prog (readfds ctx) (writefds ctx) [0..maxFd ctx] (num ctx) st
         = Some (Inr st')"
    by (auto simp: AsyncIO_ProcessEvents_select_def dest!: and_then_Inr split: if_splits)
  then show ?thesis
  proof cases
    case 1
    then show ?thesis by simp
  next
    case 2
    from select_timeout_event_count [OF 2] show ?thesis by simp
  next
    case 3
    from select_fd_loop_count [OF 3] show ?thesis by (simp add: upto_filter_card)
  qed
qed

lemma kqueue_filter_event_count:
  assumes e: "kqueue_filter_event prog e st = Some (Inr st')"
  shows "callbacks_for kAIO_DATA_AVAILABLE (snd st')
           \<le> callbacks_for kAIO_DATA_AVAILABLE (snd st) + (if kfilter e = EVFILT_READ then 1 else 0)
       \<and> callbacks_for kAIO_READY_FOR_WRITE (snd st')
           \<le> callbacks_for kAIO_READY_FOR_WRITE (snd st) + (if kfilter e = EVFILT_WRITE then 1 else 0)"
  using e
  by (auto simp: kqueue_filter_event_def callbacks_for_snoc kAIO_NEW_CONNECTION_def
        kAIO_DATA_AVAILABLE_def kAIO_READY_FOR_WRITE_def kAIO_TIMER_FIRED_def
        kAIO_PROCESS_EXITED_def kAIO_SIGNAL_DELIVERED_def
      split: if_splits option.splits dest!: invoke_trace)

lemma kqueue_event_count:
  assumes e: "kqueue_event prog e st = Some (Inr st')"
  shows "callbacks_for kAIO_DATA_AVAILABLE (snd st')
           \<le> callbacks_for kAIO_DATA_AVAILABLE (snd st) + (if kfilter e = EVFILT_READ then 1 else 0)
       \<and> callbacks_for kAIO_READY_FOR_WRITE (snd st')
           \<le> callbacks_for kAIO_READY_FOR_WRITE (snd st) + (if kfilter e = EVFILT_WRITE then 1 else 0)"
proof -
  from e obtain st1 where
    f: "kqueue_filter_event prog e ((fst st)\<lparr>anioInProgress := udata e\<rparr>, snd st) = Some (Inr st1)"
    and r: "(if flags e AND EV_EOF \<noteq> 0 \<and> kfilter e = EVFILT_READ then
            (if anioInProgress (fst st1) \<noteq> udata e then Some (Inr st1)
             else case udata e of
                    None \<Rightarrow> Some (Inl BadPointer)
                  | Some anio \<Rightarrow>
                      and_then (invoke prog kAIO_CONNECTION_CLOSED anio (ident e) st1)
                        (\<lambda>st2. Some (Inr ((fst st2)\<lparr>anioInProgress := None\<rparr>, snd st2))))
          else Some (Inr ((fst st1)\<lparr>anioInProgress := None\<rparr>, snd st1))) = Some (Inr st')"
    unfolding kqueue_event_def by (rule and_then_InrE)
  from r have "callbacks_for kAIO_DATA_AVAILABLE (snd st') = callbacks_for kAIO_DATA_AVAILABLE (snd st1)
       \<and> callbacks_for kAIO_READY_FOR_WRITE (snd st') = callbacks_for kAIO_READY_FOR_WRITE (snd st1)"
    by (auto split: if_splits option.splits dest!: and_then_Inr invoke_trace
        simp: callbacks_for_snoc kAIO_CONNECTION_CLOSED_def kAIO_DATA_AVAILABLE_def
          kAIO_READY_FOR_WRITE_def)
  with kqueue_filter_event_count [OF f] show ?thesis by simp
qed

lemma kqueue_events_count:
  "kqueue_events prog es st = Some (Inr st') \<Longrightarrow>
     callbacks_for kAIO_DATA_AVAILABLE (snd st')
           \<le> callbacks_for kAIO_DATA_AVAILABLE (snd st)
               + length (filter (\<lambda>e. kfilter e = EVFILT_READ) es)
       \<and> callbacks_for kAIO_READY_FOR_WRITE (snd st')
           \<le> callbacks_for kAIO_READY_FOR_WRITE (snd st)
               + length (filter (\<lambda>e. kfilter e = EVFILT_WRITE) es)"
proof (induction es arbitrary: st)
  case Nil
  then show ?case by simp
next
  case (Cons e es)
  from Cons.prems obtain st1 where
    a: "kqueue_event prog e st = Some (Inr st1)" and b: "kqueue_events prog es st1 = Some (Inr st')"
    by (auto dest!: and_then_Inr)
  from kqueue_event_count [OF a] Cons.IH [OF b] show ?case by auto
qed

lemma ProcessEvents_kqueue_count:
  assumes p: "AsyncIO_ProcessEvents_kqueue prog ctx st = Some (Inr (r, st'))"
  shows "callbacks_for kAIO_DATA_AVAILABLE (snd st')
           \<le> callbacks_for kAIO_DATA_AVAILABLE (snd st)
               + length (filter (\<lambda>e. kfilter e = EVFILT_READ) (take (nat (num ctx)) (kv ctx)))
       \<and> callbacks_for kAIO_READY_FOR_WRITE (snd st')
           \<le> callbacks_for kAIO_READY_FOR_WRITE (snd st)
               + length (filter (\<lambda>e. kfilter e = EVFILT_WRITE) (take (nat (num ctx)) (kv ctx)))"
proof -
  from p have "kqueue_events prog (take (nat (num ctx)) (kv ctx)) st = Some (Inr st')"
    by (auto simp: AsyncIO_ProcessEvents_kqueue_def dest!: and_then_Inr)
  then show ?thesis by (rule kqueue_events_count)
qed

lemma NotifyOn_select_refused:
  assumes "mem g h = Some a" "fd a < 0"
  shows "AsyncIO_NotifyOnReadability_select (Some h) g = Inr (- 1, g)"
    and "AsyncIO_NotifyOnWritability_select (Some h) g = Inr (- 1, g)"
  using assms
  by (simp_all add: AsyncIO_NotifyOnReadability_select_def AsyncIO_NotifyOnWritability_select_def
      lwip_socket_set_userdata_def)

lemma NotifyOn_kqueue_refused:
  assumes "mem g h = Some a" "anioKQ g < 0 \<or> fd_status g (fd a) = None"
  shows "AsyncIO_NotifyOnReadability_kqueue (Some h) g = Inr (- 1, g)"
    and "AsyncIO_NotifyOnWritability_kqueue (Some h) g = Inr (- 1, g)"
  using assms
  by (auto simp: AsyncIO_NotifyOnReadability_kqueue_def AsyncIO_NotifyOnWritability_kqueue_def
      kevent_change_def EV_ADD_def EV_ONESHOT_def EV_DELETE_def EVFILT_READ_def EVFILT_WRITE_def)

lemma NotifyOnReadability_kqueue_registers:
  assumes "mem g h = Some a" "0 \<le> anioKQ g" "fd_status g (fd a) \<noteq> None"
  shows "\<exists>g' k. AsyncIO_NotifyOnReadability_kqueue (Some h) g = Inr (0, g')
           \<and> knotes g' (fd a, EVFILT_READ) = Some k \<and> flags k AND EV_ONESHOT \<noteq> 0
           \<and> kfilter k = EVFILT_READ \<and> udata k = Some h
           \<and> map_option notifyOnRead (mem g' h) = Some True"
  using assms
  by (auto simp: AsyncIO_NotifyOnReadability_kqueue_def kevent_change_def
      EV_ADD_def EV_ONESHOT_def EV_DELETE_def)

lemma NotifyOnWritability_kqueue_registers:
  assumes "mem g h = Some a" "0 \<le> anioKQ g" "fd_status g (fd a) \<noteq> None"
  shows "\<exists>g' k. AsyncIO_NotifyOnWritability_kqueue (Some h) g = Inr (0, g')
           \<and> knotes g' (fd a, EVFILT_WRITE) = Some k \<and> flags k AND EV_ONESHOT \<noteq> 0
           \<and> kfilter k = EVFILT_WRITE \<and> udata k = Some h
           \<and> map_option notifyOnWrite (mem g' h) = Some True"
  using assms
  by (auto simp: AsyncIO_NotifyOnWritability_kqueue_def kevent_change_def
      EV_ADD_def EV_ONESHOT_def EV_DELETE_def)

lemma connection_handleE:
  assumes "connection_handle g p"
  obtains h a where "p = Some h" "mem g h = Some a" "type a = kAIO_TYPE_CONNECTION"
  using assms by (auto simp: connection_handle_def split: option.splits)

lemma connection_handle_cong:
  "mem g' = mem g \<Longrightarrow> connection_handle g' p = connection_handle g p"
  by (cases p) (simp_all add: connection_handle_def)

lemma invoke_quietly:
  assumes q: "returns_quietly prog" and m: "mem (fst st) h = Some a"
  shows "\<exists>g'. invoke prog k h d st = Some (Inr (g', snd st @ [(k, h, d)]))
           \<and> sock_userdata g' = sock_userdata (fst st)
           \<and> (\<forall>p. connection_handle (fst st) p \<longrightarrow> connection_handle g' p)"
proof -
  from q obtain g' where "prog (callback a) k h d (userdata a) (fst st) = Some (Inr g')"
    "sock_userdata g' = sock_userdata (fst st)"
    "\<forall>p. connection_handle (fst st) p \<longrightarrow> connection_handle g' p"
    unfolding returns_quietly_def by blast
  with m show ?thesis by (simp add: invoke_def)
qed

lemma select_read_event_delivers:
  assumes q: "returns_quietly prog" and c: "connection_handle (fst st) (sock_userdata (fst st) i)"
  shows "\<exists>st'. select_read_event prog i st = Some (Inr st')
           \<and> callbacks_for kAIO_DATA_AVAILABLE (snd st') = callbacks_for kAIO_DATA_AVAILABLE (snd st) + 1
           \<and> callbacks_for kAIO_READY_FOR_WRITE (snd st') = callbacks_for kAIO_READY_FOR_WRITE (snd st)
           \<and> sock_userdata (fst st') = sock_userdata (fst st)
           \<and> (\<forall>p. connection_handle (fst st) p \<longrightarrow> connection_handle (fst st') p)"
proof -
  from c obtain h a where u: "sock_userdata (fst st) i = Some h" and m: "mem (fst st) h = Some a"
    and t: "type a = kAIO_TYPE_CONNECTION"
    by (rule connection_handleE)
  let ?g1 = "(fst st)\<lparr>anioReadSet := anioReadSet (fst st) - {i}, anioInProgress := Some h\<rparr>"
  let ?g2 = "?g1\<lparr>mem := (mem ?g1)(h \<mapsto> a\<lparr>notifyOnRead := False\<rparr>)\<rparr>"
  have m2: "mem (fst (?g2, snd st)) h = Some (a\<lparr>notifyOnRead := False\<rparr>)" by simp
  from invoke_quietly [OF q m2, of kAIO_DATA_AVAILABLE "fd a"] obtain g' where
    i: "invoke prog kAIO_DATA_AVAILABLE h (fd a) (?g2, snd st)
          = Some (Inr (g', snd st @ [(kAIO_DATA_AVAILABLE, h, fd a)]))"
    and s: "sock_userdata g' = sock_userdata (fst st)"
    and k: "\<forall>p. connection_handle ?g2 p \<longrightarrow> connection_handle g' p"
    by auto
  have keep: "\<forall>p. connection_handle (fst st) p \<longrightarrow> connection_handle ?g2 p"
    using m by (auto simp: connection_handle_def split: option.splits)
  have r: "select_read_event prog i st
             = Some (Inr (g'\<lparr>anioInProgress := None\<rparr>, snd st @ [(kAIO_DATA_AVAILABLE, h, fd a)]))"
    using u m t i
    by (simp add: select_read_event_def Let_def kAIO_TYPE_CONNECTION_def kAIO_TYPE_LISTENER_def)
  have c': "\<forall>p. connection_handle (fst st) p \<longrightarrow> connection_handle (g'\<lparr>anioInProgress := None\<rparr>) p"
  proof (intro allI impI)
    fix p assume "connection_handle (fst st) p"
    with keep k have "connection_handle g' p" by blast
    then show "connection_handle (g'\<lparr>anioInProgress := None\<rparr>) p"
      by (simp add: connection_handle_cong [of "g'\<lparr>anioInProgress := None\<rparr>" g'])
  qed
  show ?thesis
    unfolding r using s c'
    by (simp add: callbacks_for_snoc kAIO_DATA_AVAILABLE_def kAIO_READY_FOR_WRITE_def)
qed

lemma select_write_event_delivers:
  assumes q: "returns_quietly prog" and c: "connection_handle (fst st) (sock_userdata (fst st) i)"
  shows "\<exists>st'. select_write_event prog i st = Some (Inr st')
           \<and> callbacks_for kAIO_READY_FOR_WRITE (snd st') = callbacks_for kAIO_READY_FOR_WRITE (snd st) + 1
           \<and> callbacks_for kAIO_DATA_AVAILABLE (snd st') = callbacks_for kAIO_DATA_AVAILABLE (snd st)
           \<and> sock_userdata (fst st') = sock_userdata (fst st)
           \<and> (\<forall>p. connection_handle (fst st) p \<longrightarrow> connection_handle (fst st') p)"
proof -
  from c obtain h a where u: "sock_userdata (fst st) i = Some h" and m: "mem (fst st) h = Some a"
    and t: "type a = kAIO_TYPE_CONNECTION"
    by (rule connection_handleE)
  let ?g1 = "(fst st)\<lparr>anioWriteSet := anioWriteSet (fst st) - {i}, anioInProgress := Some h\<rparr>"
  let ?g2 = "?g1\<lparr>mem := (mem ?g1)(h \<mapsto> a\<lparr>notifyOnWrite := False\<rparr>)\<rparr>"
  have m2: "mem (fst (?g2, snd st)) h = Some (a\<lparr>notifyOnWrite := False\<rparr>)" by simp
  from invoke_quietly [OF q m2, of kAIO_READY_FOR_WRITE "fd a"] obtain g' where
    i: "invoke prog kAIO_READY_FOR_WRITE h (fd a) (?g2, snd st)
          = Some (Inr (g', snd st @ [(kAIO_READY_FOR_WRITE, h, fd a)]))"
    and s: "sock_userdata g' = sock_userdata (fst st)"
    and k: "\<forall>p. connection_handle ?g2 p \<longrightarrow> connection_handle g' p"
    by auto
  have keep: "\<forall>p. connection_handle (fst st) p \<longrightarrow> connection_handle ?g2 p"
    using m by (auto simp: connection_handle_def split: option.splits)
  have r: "select_write_event prog i st
             = Some (Inr (g'\<lparr>anioInProgress := None\<rparr>, snd st @ [(kAIO_READY_FOR_WRITE, h, fd a)]))"
    using u m i
    by (simp add: select_write_event_def Let_def)
  have c': "\<forall>p. connection_handle (fst st) p \<longrightarrow> connection_handle (g'\<lparr>anioInProgress := None\<rparr>) p"
  proof (intro allI impI)
    fix p assume "connection_handle (fst st) p"
    with keep k have "connection_handle g' p" by blast
    then show "connection_handle (g'\<lparr>anioInProgress := None\<rparr>) p"
      by (simp add: connection_handle_cong [of "g'\<lparr>anioInProgress := None\<rparr>" g'])
  qed
  show ?thesis
    unfolding r using s c'
    by (simp add: callbacks_for_snoc kAIO_DATA_AVAILABLE_def kAIO_READY_FOR_WRITE_def)
qed

lemma select_fd_loop_delivers:
  assumes q: "returns_quietly prog"
  shows "\<forall>i\<in>set is. i \<in> rd \<union> wr \<longrightarrow> connection_handle (fst st) (sock_userdata (fst st) i) \<Longrightarrow>
     int (length (filter (\<lambda>i. i \<in> rd) is) + length (filter (\<lambda>i. i \<in> wr) is)) \<le> n \<Longrightarrow>
     \<exists>st'. select_fd_loop prog rd wr is n st = Some (Inr st')
       \<and> callbacks_for kAIO_DATA_AVAILABLE (snd st')
           = callbacks_for kAIO_DATA_AVAILABLE (snd st) + length (filter (\<lambda>i. i \<in> rd) is)
       \<and> callbacks_for kAIO_READY_FOR_WRITE (snd st')
           = callbacks_for kAIO_READY_FOR_WRITE (snd st) + length (filter (\<lambda>i. i \<in> wr) is)"
proof (induction "is" arbitrary: n st)
  case Nil
  then show ?case by simp
next
  case (Cons i "is")
  note ih = Cons.IH and live = Cons.prems(1) and cnt = Cons.prems(2)
  show ?case
  proof (cases "i \<in> rd \<or> i \<in> wr")
    case False
    then have l: "length (filter (\<lambda>i. i \<in> rd) (i # is)) = length (filter (\<lambda>i. i \<in> rd) is)"
      "length (filter (\<lambda>i. i \<in> wr) (i # is)) = length (filter (\<lambda>i. i \<in> wr) is)"
      by simp_all
    show ?thesis
    proof (cases "n = 0")
      case True
      from cnt True have "length (filter (\<lambda>i. i \<in> rd) (i # is))
          + length (filter (\<lambda>i. i \<in> wr) (i # is)) = 0"
        by linarith
      then have "length (filter (\<lambda>i. i \<in> rd) (i # is)) = 0"
        "length (filter (\<lambda>i. i \<in> wr) (i # is)) = 0"
        by simp_all
      with True show ?thesis by simp
    next
      case n: False
      from live have live': "\<forall>j\<in>set is. j \<in> rd \<union> wr \<longrightarrow>
          connection_handle (fst st) (sock_userdata (fst st) j)" by simp
      from cnt l have cnt': "int (length (filter (\<lambda>i. i \<in> rd) is)
          + length (filter (\<lambda>i. i \<in> wr) is)) \<le> n" by simp
      from ih [OF live' cnt'] False n l show ?thesis by simp
    qed
  next
    case True
    with cnt have n: "n \<noteq> 0" by auto
    from live True have ci: "connection_handle (fst st) (sock_userdata (fst st) i)" by auto
    obtain st1 where
      s1: "(if i \<in> rd then select_read_event prog i st else Some (Inr st)) = Some (Inr st1)"
      and c1: "callbacks_for kAIO_DATA_AVAILABLE (snd st1)
                 = callbacks_for kAIO_DATA_AVAILABLE (snd st) + (if i \<in> rd then 1 else 0)"
        "callbacks_for kAIO_READY_FOR_WRITE (snd st1) = callbacks_for kAIO_READY_FOR_WRITE (snd st)"
      and u1: "sock_userdata (fst st1) = sock_userdata (fst st)"
      and k1: "\<forall>p. connection_handle (fst st) p \<longrightarrow> connection_handle (fst st1) p"
    proof (cases "i \<in> rd")
      case True
      from select_read_event_delivers [OF q ci] True that show ?thesis by auto
    next
      case False
      with that [of st] show ?thesis by simp
    qed
    from ci u1 k1 have ci1: "connection_handle (fst st1) (sock_userdata (fst st1) i)" by simp
    obtain st2 where
      s2: "(if i \<in> wr then select_write_event prog i st1 else Some (Inr st1)) = Some (Inr st2)"
      and c2: "callbacks_for kAIO_READY_FOR_WRITE (snd st2)
                 = callbacks_for kAIO_READY_FOR_WRITE (snd st1) + (if i \<in> wr then 1 else 0)"
        "callbacks_for kAIO_DATA_AVAILABLE (snd st2) = callbacks_for kAIO_DATA_AVAILABLE (snd st1)"
      and u2: "sock_userdata (fst st2) = sock_userdata (fst st1)"
      and k2: "\<forall>p. connection_handle (fst st1) p \<longrightarrow> connection_handle (fst st2) p"
    proof (cases "i \<in> wr")
      case True
      from select_write_event_delivers [OF q ci1] True that show ?thesis by auto
    next
      case False
      with that [of st1] show ?thesis by simp
    qed
    let ?n = "n - (if i \<in> rd then 1 else 0) - (if i \<in> wr then 1 else 0)"
    from live u1 u2 k1 k2 have live': "\<forall>j\<in>set is. j \<in> rd \<union> wr \<longrightarrow>
        connection_handle (fst st2) (sock_userdata (fst st2) j)" by simp
    from cnt have cnt': "int (length (filter (\<lambda>i. i \<in> rd) is)
        + length (filter (\<lambda>i. i \<in> wr) is)) \<le> ?n" by auto
    from ih [OF live' cnt'] obtain st' where
      s3: "select_fd_loop prog rd wr is ?n st2 = Some (Inr st')"
      and c3: "callbacks_for kAIO_DATA_AVAILABLE (snd st')
           = callbacks_for kAIO_DATA_AVAILABLE (snd st2) + length (filter (\<lambda>i. i \<in> rd) is)"
        "callbacks_for kAIO_READY_FOR_WRITE (snd st')
           = callbacks_for kAIO_READY_FOR_WRITE (snd st2) + length (filter (\<lambda>i. i \<in> wr) is)"
      by blast
    have "select_fd_loop prog rd wr (i # is) n st = Some (Inr st')"
      using n s1 s2 s3 by simp
    moreover have "callbacks_for kAIO_DATA_AVAILABLE (snd st')
           = callbacks_for kAIO_DATA_AVAILABLE (snd st) + length (filter (\<lambda>i. i \<in> rd) (i # is))"
      using c1 c2 c3 by simp
    moreover have "callbacks_for kAIO_READY_FOR_WRITE (snd st')
           = callbacks_for kAIO_READY_FOR_WRITE (snd st) + length (filter (\<lambda>i. i \<in> wr) (i # is))"
      using c1 c2 c3 by simp
    ultimately show ?thesis by blast
  qed
qed

lemma ProcessEvents_select_delivers:
  assumes q: "returns_quietly prog"
    and live: "\<forall>i\<in>(readfds ctx \<union> writefds ctx) \<inter> {0..maxFd ctx}.
                 connection_handle g (sock_userdata g i)"
    and pos: "0 < num ctx"
    and cnt: "int (card (readfds ctx \<inter> {0..maxFd ctx}) + card (writefds ctx \<inter> {0..maxFd ctx}))
                \<le> num ctx"
  shows "\<exists>g' tr'. AsyncIO_ProcessEvents_select prog ctx (g, tr) = Some (Inr (0, g', tr'))
       \<and> callbacks_for kAIO_DATA_AVAILABLE tr'
           = callbacks_for kAIO_DATA_AVAILABLE tr + card (readfds ctx \<inter> {0..maxFd ctx})
       \<and> callbacks_for kAIO_READY_FOR_WRITE tr'
           = callbacks_for kAIO_READY_FOR_WRITE tr + card (writefds ctx \<inter> {0..maxFd ctx})"
proof -
  from live have l: "\<forall>i\<in>set [0..maxFd ctx]. i \<in> readfds ctx \<union> writefds ctx \<longrightarrow>
      connection_handle (fst (g, tr)) (sock_userdata (fst (g, tr)) i)" by auto
  from cnt have c: "int (length (filter (\<lambda>i. i \<in> readfds ctx) [0..maxFd ctx])
      + length (filter (\<lambda>i. i \<in> writefds ctx) [0..maxFd ctx])) \<le> num ctx"
    by (simp add: upto_filter_card)
  from select_fd_loop_delivers [OF q l c] obtain st' where
    s: "select_fd_loop prog (readfds ctx) (writefds ctx) [0..maxFd ctx] (num ctx) (g, tr)
          = Some (Inr st')"
    and k: "callbacks_for kAIO_DATA_AVAILABLE (snd st')
           = callbacks_for kAIO_DATA_AVAILABLE tr + card (readfds ctx \<inter> {0..maxFd ctx})"
      "callbacks_for kAIO_READY_FOR_WRITE (snd st')
           = callbacks_for kAIO_READY_FOR_WRITE tr + card (writefds ctx \<inter> {0..maxFd ctx})"
    by (auto simp: upto_filter_card)
  from pos s have "AsyncIO_ProcessEvents_select prog ctx (g, tr) = Some (Inr (0, fst st', snd st'))"
    by (simp add: AsyncIO_ProcessEvents_select_def)
  with k show ?thesis by blast
qed

lemma kqueue_filter_event_delivers:
  assumes q: "returns_quietly prog" and c: "connection_handle (fst st) (udata e)"
    and f: "kfilter e = EVFILT_READ \<or> kfilter e = EVFILT_WRITE"
  shows "\<exists>st'. kqueue_filter_event prog e st = Some (Inr st')
       \<and> callbacks_for kAIO_DATA_AVAILABLE (snd st')
           = callbacks_for kAIO_DATA_AVAILABLE (snd st) + (if kfilter e = EVFILT_READ then 1 else 0)
       \<and> callbacks_for kAIO_READY_FOR_WRITE (snd st')
           = callbacks_for kAIO_READY_FOR_WRITE (snd st) + (if kfilter e = EVFILT_WRITE then 1 else 0)
       \<and> (\<forall>p. connection_handle (fst st) p \<longrightarrow> connection_handle (fst st') p)"
proof -
  from c obtain h a where u: "udata e = Some h" and m: "mem (fst st) h = Some a"
    and t: "type a = kAIO_TYPE_CONNECTION"
    by (rule connection_handleE)
  have ne: "EVFILT_READ \<noteq> EVFILT_WRITE" by (simp add: EVFILT_READ_def EVFILT_WRITE_def)
  show ?thesis
  proof (cases "kfilter e = EVFILT_READ")
    case True
    let ?g2 = "(fst st)\<lparr>mem := (mem (fst st))(h \<mapsto> a\<lparr>notifyOnRead := False\<rparr>)\<rparr>"
    have m2: "mem (fst (?g2, snd st)) h = Some (a\<lparr>notifyOnRead := False\<rparr>)" by simp
    from invoke_quietly [OF q m2, of kAIO_DATA_AVAILABLE "ident e"] obtain g' where
      i: "invoke prog kAIO_DATA_AVAILABLE h (ident e) (?g2, snd st)
            = Some (Inr (g', snd st @ [(kAIO_DATA_AVAILABLE, h, ident e)]))"
      and k: "\<forall>p. connection_handle ?g2 p \<longrightarrow> connection_handle g' p"
      by auto
    have keep: "\<forall>p. connection_handle (fst st) p \<longrightarrow> connection_handle ?g2 p"
      using m by (auto simp: connection_handle_def split: option.splits)
    have r: "kqueue_filter_event prog e st
               = Some (Inr (g', snd st @ [(kAIO_DATA_AVAILABLE, h, ident e)]))"
      using True u m t i
      by (simp add: kqueue_filter_event_def kAIO_TYPE_CONNECTION_def kAIO_TYPE_LISTENER_def)
    show ?thesis
      unfolding r using True ne keep k
      by (simp add: callbacks_for_snoc kAIO_DATA_AVAILABLE_def kAIO_READY_FOR_WRITE_def)
  next
    case False
    with f have w: "kfilter e = EVFILT_WRITE" by simp
    let ?g2 = "(fst st)\<lparr>mem := (mem (fst st))(h \<mapsto> a\<lparr>notifyOnWrite := False\<rparr>)\<rparr>"
    have m2: "mem (fst (?g2, snd st)) h = Some (a\<lparr>notifyOnWrite := False\<rparr>)" by simp
    from invoke_quietly [OF q m2, of kAIO_READY_FOR_WRITE "ident e"] obtain g' where
      i: "invoke prog kAIO_READY_FOR_WRITE h (ident e) (?g2, snd st)
            = Some (Inr (g', snd st @ [(kAIO_READY_FOR_WRITE, h, ident e)]))"
      and k: "\<forall>p. connection_handle ?g2 p \<longrightarrow> connection_handle g' p"
      by auto
    have keep: "\<forall>p. connection_handle (fst st) p \<longrightarrow> connection_handle ?g2 p"
      using m by (auto simp: connection_handle_def split: option.splits)
    have r: "kqueue_filter_event prog e st
               = Some (Inr (g', snd st @ [(kAIO_READY_FOR_WRITE, h, ident e)]))"
      using False w u m i
      by (simp add: kqueue_filter_event_def)
    show ?thesis
      unfolding r using False w keep k
      by (simp add: callbacks_for_snoc kAIO_DATA_AVAILABLE_def kAIO_READY_FOR_WRITE_def)
  qed
qed

lemma kqueue_event_delivers:
  assumes q: "returns_quietly prog" and c: "connection_handle (fst st) (udata e)"
    and f: "kfilter e = EVFILT_READ \<or> kfilter e = EVFILT_WRITE"
  shows "\<exists>st'. kqueue_event prog e st = Some (Inr st')
       \<and> callbacks_for kAIO_DATA_AVAILABLE (snd st')
           = callbacks_for kAIO_DATA_AVAILABLE (snd st) + (if kfilter e = EVFILT_READ then 1 else 0)
       \<and> callbacks_for kAIO_READY_FOR_WRITE (snd st')
           = callbacks_for kAIO_READY_FOR_WRITE (snd st) + (if kfilter e = EVFILT_WRITE then 1 else 0)
       \<and> (\<forall>p. connection_handle (fst st) p \<longrightarrow> connection_handle (fst st') p)"
proof -
  let ?st0 = "((fst st)\<lparr>anioInProgress := udata e\<rparr>, snd st)"
  have cc: "\<And>p. connection_handle (fst ?st0) p = connection_handle (fst st) p"
    by (simp add: connection_handle_cong [of "(fst st)\<lparr>anioInProgress := udata e\<rparr>" "fst st"])
  from c have c0: "connection_handle (fst ?st0) (udata e)" by (simp only: cc)
  from kqueue_filter_event_delivers [OF q c0 f] obtain st1 where
    f1: "kqueue_filter_event prog e ?st0 = Some (Inr st1)"
    and d1: "callbacks_for kAIO_DATA_AVAILABLE (snd st1)
           = callbacks_for kAIO_DATA_AVAILABLE (snd st) + (if kfilter e = EVFILT_READ then 1 else 0)"
    and w1: "callbacks_for kAIO_READY_FOR_WRITE (snd st1)
           = callbacks_for kAIO_READY_FOR_WRITE (snd st) + (if kfilter e = EVFILT_WRITE then 1 else 0)"
    and k1: "\<forall>p. connection_handle (fst st) p \<longrightarrow> connection_handle (fst st1) p"
    unfolding cc by auto
  from c k1 have c1: "connection_handle (fst st1) (udata e)" by blast
  then obtain h a where u: "udata e = Some h" and m: "mem (fst st1) h = Some a"
    by (rule connection_handleE)
  have clr: "\<And>g p. connection_handle (g\<lparr>anioInProgress := None\<rparr>) p = connection_handle g p"
    by (rule connection_handle_cong) simp
  have "\<exists>st'. (if flags e AND EV_EOF \<noteq> 0 \<and> kfilter e = EVFILT_READ then
            (if anioInProgress (fst st1) \<noteq> udata e then Some (Inr st1)
             else case udata e of
                    None \<Rightarrow> Some (Inl BadPointer)
                  | Some anio \<Rightarrow>
                      and_then (invoke prog kAIO_CONNECTION_CLOSED anio (ident e) st1)
                        (\<lambda>st2. Some (Inr ((fst st2)\<lparr>anioInProgress := None\<rparr>, snd st2))))
          else Some (Inr ((fst st1)\<lparr>anioInProgress := None\<rparr>, snd st1))) = Some (Inr st')
       \<and> callbacks_for kAIO_DATA_AVAILABLE (snd st') = callbacks_for kAIO_DATA_AVAILABLE (snd st1)
       \<and> callbacks_for kAIO_READY_FOR_WRITE (snd st') = callbacks_for kAIO_READY_FOR_WRITE (snd st1)
       \<and> (\<forall>p. connection_handle (fst st1) p \<longrightarrow> connection_handle (fst st') p)"
  proof (cases "flags e AND EV_EOF \<noteq> 0 \<and> kfilter e = EVFILT_READ")
    case False
    then have "(flags e AND EV_EOF \<noteq> 0 \<and> kfilter e = EVFILT_READ) = False" by blast
    then show ?thesis by (simp only: if_False) (simp add: clr)
  next
    case eof: True
    show ?thesis
    proof (cases "anioInProgress (fst st1) \<noteq> udata e")
      case True
      from eof have c1: "(flags e AND EV_EOF \<noteq> 0 \<and> kfilter e = EVFILT_READ) = True" by blast
      from True have c2: "(anioInProgress (fst st1) \<noteq> udata e) = True" by blast
      show ?thesis by (simp only: c1 c2 if_True) simp
    next
      case False
      from invoke_quietly [OF q m, of kAIO_CONNECTION_CLOSED "ident e"] obtain g' where
        i: "invoke prog kAIO_CONNECTION_CLOSED h (ident e) st1
              = Some (Inr (g', snd st1 @ [(kAIO_CONNECTION_CLOSED, h, ident e)]))"
        and k: "\<forall>p. connection_handle (fst st1) p \<longrightarrow> connection_handle g' p"
        by auto
      from eof have c1: "(flags e AND EV_EOF \<noteq> 0 \<and> kfilter e = EVFILT_READ) = True" by blast
      from False have c2: "(anioInProgress (fst st1) \<noteq> udata e) = False" by blast
      show ?thesis
        apply (simp only: c1 c2 if_True if_False)
        apply (simp only: u option.case i and_then_simps)
        using k
        apply (simp add: clr callbacks_for_snoc kAIO_CONNECTION_CLOSED_def kAIO_DATA_AVAILABLE_def
            kAIO_READY_FOR_WRITE_def)
        done
    qed
  qed
  then obtain st' where
    r: "(if flags e AND EV_EOF \<noteq> 0 \<and> kfilter e = EVFILT_READ then
            (if anioInProgress (fst st1) \<noteq> udata e then Some (Inr st1)
             else case udata e of
                    None \<Rightarrow> Some (Inl BadPointer)
                  | Some anio \<Rightarrow>
                      and_then (invoke prog kAIO_CONNECTION_CLOSED anio (ident e) st1)
                        (\<lambda>st2. Some (Inr ((fst st2)\<lparr>anioInProgress := None\<rparr>, snd st2))))
          else Some (Inr ((fst st1)\<lparr>anioInProgress := None\<rparr>, snd st1))) = Some (Inr st')"
    and d2: "callbacks_for kAIO_DATA_AVAILABLE (snd st') = callbacks_for kAIO_DATA_AVAILABLE (snd st1)"
    and w2: "callbacks_for kAIO_READY_FOR_WRITE (snd st') = callbacks_for kAIO_READY_FOR_WRITE (snd st1)"
    and k2: "\<forall>p. connection_handle (fst st1) p \<longrightarrow> connection_handle (fst st') p"
    by blast
  have "kqueue_event prog e st = Some (Inr st')"
    unfolding kqueue_event_def f1 using r by simp
  with d1 w1 d2 w2 k1 k2 show ?thesis by auto
qed

lemma kqueue_events_delivers:
  assumes q: "returns_quietly prog"
  shows "\<forall>e\<in>set es. connection_handle (fst st) (udata e)
            \<and> (kfilter e = EVFILT_READ \<or> kfilter e = EVFILT_WRITE) \<Longrightarrow>
     \<exists>st'. kqueue_events prog es st = Some (Inr st')
       \<and> callbacks_for kAIO_DATA_AVAILABLE (snd st')
           = callbacks_for kAIO_DATA_AVAILABLE (snd st)
               + length (filter (\<lambda>e. kfilter e = EVFILT_READ) es)
       \<and> callbacks_for kAIO_READY_FOR_WRITE (snd st')
           = callbacks_for kAIO_READY_FOR_WRITE (snd st)
               + length (filter (\<lambda>e. kfilter e = EVFILT_WRITE) es)"
proof (induction es arbitrary: st)
  case Nil
  then show ?case by simp
next
  case (Cons e es)
  from Cons.prems have c: "connection_handle (fst st) (udata e)"
    and f: "kfilter e = EVFILT_READ \<or> kfilter e = EVFILT_WRITE"
    by simp_all
  from kqueue_event_delivers [OF q c f] obtain st1 where
    e1: "kqueue_event prog e st = Some (Inr st1)"
    and d1: "callbacks_for kAIO_DATA_AVAILABLE (snd st1)
           = callbacks_for kAIO_DATA_AVAILABLE (snd st) + (if kfilter e = EVFILT_READ then 1 else 0)"
    and w1: "callbacks_for kAIO_READY_FOR_WRITE (snd st1)
           = callbacks_for kAIO_READY_FOR_WRITE (snd st) + (if kfilter e = EVFILT_WRITE then 1 else 0)"
    and k1: "\<forall>p. connection_handle (fst st) p \<longrightarrow> connection_handle (fst st1) p"
    by blast
  from Cons.prems k1 have "\<forall>e\<in>set es. connection_handle (fst st1) (udata e)
            \<and> (kfilter e = EVFILT_READ \<or> kfilter e = EVFILT_WRITE)"
    by simp
  from Cons.IH [OF this] obtain st' where
    r: "kqueue_events prog es st1 = Some (Inr st')"
    and d2: "callbacks_for kAIO_DATA_AVAILABLE (snd st')
           = callbacks_for kAIO_DATA_AVAILABLE (snd st1)
               + length (filter (\<lambda>e. kfilter e = EVFILT_READ) es)"
    and w2: "callbacks_for kAIO_READY_FOR_WRITE (snd st')
           = callbacks_for kAIO_READY_FOR_WRITE (snd st1)
               + length (filter (\<lambda>e. kfilter e = EVFILT_WRITE) es)"
    by blast
  from e1 r have "kqueue_events prog (e # es) st = Some (Inr st')" by simp
  with d1 w1 d2 w2 show ?case by auto
qed

lemma ProcessEvents_kqueue_delivers:
  assumes q: "returns_quietly prog"
    and live: "\<forall>e\<in>set (take (nat (num ctx)) (kv ctx)). connection_handle g (udata e)
                 \<and> (kfilter e = EVFILT_READ \<or> kfilter e = EVFILT_WRITE)"
  shows "\<exists>g' tr'. AsyncIO_ProcessEvents_kqueue prog ctx (g, tr) = Some (Inr (0, g', tr'))
       \<and> callbacks_for kAIO_DATA_AVAILABLE tr'
           = callbacks_for kAIO_DATA_AVAILABLE tr
               + length (filter (\<lambda>e. kfilter e = EVFILT_READ) (take (nat (num ctx)) (kv ctx)))
       \<and> callbacks_for kAIO_READY_FOR_WRITE tr'
           = callbacks_for kAIO_READY_FOR_WRITE tr
               + length (filter (\<lambda>e. kfilter e = EVFILT_WRITE) (take (nat (num ctx)) (kv ctx)))"
proof -
  from live have "\<forall>e\<in>set (take (nat (num ctx)) (kv ctx)).
      connection_handle (fst (g, tr)) (udata e)
      \<and> (kfilter e = EVFILT_READ \<or> kfilter e = EVFILT_WRITE)" by simp
  from kqueue_events_delivers [OF q this] obtain st' where
    r: "kqueue_events prog (take (nat (num ctx)) (kv ctx)) (g, tr) = Some (Inr st')"
    and d: "callbacks_for kAIO_DATA_AVAILABLE (snd st')
           = callbacks_for kAIO_DATA_AVAILABLE tr
               + length (filter (\<lambda>e. kfilter e = EVFILT_READ) (take (nat (num ctx)) (kv ctx)))"
      "callbacks_for kAIO_READY_FOR_WRITE (snd st')
           = callbacks_for kAIO_READY_FOR_WRITE tr
               + length (filter (\<lambda>e. kfilter e = EVFILT_WRITE) (take (nat (num ctx)) (kv ctx)))"
    by auto
  from r have "AsyncIO_ProcessEvents_kqueue prog ctx (g, tr) = Some (Inr (0, fst st', snd st'))"
    by (simp add: AsyncIO_ProcessEvents_kqueue_def)
  with d show ?thesis by blast
qed


text \<open>
  The registrations of the connection on descriptor 5 after it was armed for reading and
  writing in the kqueue build.
\<close>

lemma knotes_armed_both_kqueue:
  "knotes armed_both_kqueue
     = [(5, EVFILT_READ) \<mapsto> \<lparr>ident = 5, kfilter = EVFILT_READ, flags = EV_ADD OR EV_ONESHOT,
                                 udata = Some 1\<rparr>,
        (5, EVFILT_WRITE) \<mapsto> \<lparr>ident = 5, kfilter = EVFILT_WRITE, flags = EV_ADD OR EV_ONESHOT,
                                  udata = Some 1\<rparr>]"
  by (simp add: armed_both_kqueue_def AsyncIO_NewConnection_kqueue_def
      AsyncIO_NotifyOnReadability_kqueue_def AsyncIO_NotifyOnWritability_kqueue_def
      kevent_change_def open_fd5_def initial_globals_def fcntl_GETFL_def fcntl_SETFL_def
      Let_def EV_ADD_def EV_ONESHOT_def EV_DELETE_def zeroed_def)



end
